theory Spec2Isabelle
  imports Complex_Main "HOL-Library.Word"
begin

unbundle bit_operations_syntax

section \<open>The Linux gamepad backend (internal/gamepad/gamepad_linux.go)\<close>

text \<open>
  Conventions of the embedding.
  \<^item> Go's \<open>int\<close> is HOL's \<open>int\<close>: every \<open>int\<close> of the file is a loop counter, an
    array index or a 4-bit mask, far from any overflow.
  \<^item> \<open>uint16\<close>, \<open>int32\<close> and \<open>byte\<close> are words; an \<open>int32\<close> is read with \<open>sint\<close>.
  \<^item> A fixed-size array \<open>[N]T\<close> is a function \<open>int \<Rightarrow> T\<close>; every access is guarded by
    \<open>0 \<le> i \<and> i < N\<close> and the failed guard is Go's index-out-of-range panic.
  \<^item> A run-time panic is the result \<open>None\<close>.
  \<^item> \<open>float64\<close> is \<open>real\<close>, and every float64 operation is the exact operation followed
    by the rounding function \<open>rd\<close>, a parameter of the functions that compute with
    floats.
\<close>

subsection \<open>Constants\<close>

text \<open>
  The constants below are declared in files of the package that are not part of the
  sources at hand (\<open>api_linux.go\<close>, \<open>gamepad.go\<close>) or in \<open>golang.org/x/sys/unix\<close>. They
  are untyped Go constants, here of type \<open>int\<close>. Their values are those of the Linux
  header \<open>input-event-codes.h\<close>; the four hat bits are the four bits of the 4-bit
  direction mask of the spec.
\<close>

definition EV_SYN :: int where "EV_SYN = 0x00"
definition EV_KEY :: int where "EV_KEY = 0x01"
definition EV_ABS :: int where "EV_ABS = 0x03"
definition EV_CNT :: int where "EV_CNT = 0x20"

definition SYN_REPORT :: int where "SYN_REPORT = 0"
definition SYN_DROPPED :: int where "SYN_DROPPED = 3"

definition BTN_MISC :: int where "BTN_MISC = 0x100"
definition KEY_CNT :: int where "KEY_CNT = 0x300"
definition ABS_CNT :: int where "ABS_CNT = 0x40"
definition ABS_HAT0X :: int where "ABS_HAT0X = 0x10"
definition ABS_HAT3Y :: int where "ABS_HAT3Y = 0x17"

definition hatCentered :: int where "hatCentered = 0"
definition hatUp :: int where "hatUp = 1"
definition hatRight :: int where "hatRight = 2"
definition hatDown :: int where "hatDown = 4"
definition hatLeft :: int where "hatLeft = 8"

lemmas input_consts =
  EV_SYN_def EV_KEY_def EV_ABS_def EV_CNT_def SYN_REPORT_def SYN_DROPPED_def
  BTN_MISC_def KEY_CNT_def ABS_CNT_def ABS_HAT0X_def ABS_HAT3Y_def

lemmas hat_consts = hatCentered_def hatUp_def hatRight_def hatDown_def hatLeft_def

subsection \<open>Data\<close>

type_synonym byte = "8 word"
type_synonym uint16 = "16 word"
type_synonym int32 = "32 word"

text \<open>The three fields of the kernel's \<open>input_absinfo\<close> that the code reads.\<close>

record input_absinfo =
  val :: int32
  minimum :: int32
  maximum :: int32

record input_id =
  bustype :: uint16
  vendor :: uint16
  product :: uint16
  version :: uint16

record input_event =
  ev_typ :: uint16
  ev_code :: uint16
  ev_value :: int32

record nativeGamepad =
  fd :: int
  path :: string
  keyMap :: "int \<Rightarrow> int"
  absMap :: "int \<Rightarrow> int"
  absInfo :: "int \<Rightarrow> input_absinfo"
  dropped :: bool
  axes :: "int \<Rightarrow> real"
  buttons :: "int \<Rightarrow> bool"
  hats :: "int \<Rightarrow> int"
  axisCount' :: int
  buttonCount' :: int
  hatCount' :: int

text \<open>
  The errors of the system calls, and the errors that the functions return
  (one constructor for each \<open>fmt.Errorf\<close> of the file, wrapping the errno).
\<close>

datatype errno = EACCES | ENOENT | EAGAIN | ENODEV | EOTHER nat

datatype gp_error =
    OpenFailed errno
  | EvBitsFailed errno
  | KeyBitsFailed errno
  | AbsBitsFailed errno
  | IDFailed errno
  | AbsAtOpenFailed errno
  | AbsAtPollFailed errno
  | ReadFailed errno

text \<open>The calls of \<open>unix.Open\<close> and \<open>unix.Close\<close> a function makes, in order.\<close>

datatype syscall = SysOpen string | SysClose int

text \<open>
  The kernel, as seen through one device node: what \<open>unix.Open\<close> and each \<open>ioctl\<close>
  answer. The answer to \<open>EVIOCGABS\<close> may change from one call to the next, so it depends
  on the number of \<open>EVIOCGABS\<close> calls made before, which the functions thread as \<open>n\<close>.
\<close>

type_synonym abs_oracle = "nat \<Rightarrow> int \<Rightarrow> errno + input_absinfo"

record device =
  dev_open :: "errno + int"
  dev_evBits :: "errno + byte list"
  dev_keyBits :: "errno + byte list"
  dev_absBits :: "errno + byte list"
  dev_id :: "errno + input_id"
  dev_name :: "errno + byte list"
  dev_abs :: abs_oracle

text \<open>What one \<open>unix.Read\<close> on the device answers: the bytes read, or an error.\<close>

datatype read_result = ReadOk "byte list" | ReadErr errno

subsection \<open>isBitSet and buffers\<close>

text \<open>
  \<open>s[bit/8]&(1<<(bit%8)) != 0\<close>. A negative \<open>bit\<close> panics (negative index or negative
  shift count); for the others Go's truncating \<open>/\<close> and \<open>%\<close> are \<open>div\<close> and \<open>mod\<close>.
\<close>

definition isBitSet :: "byte list \<Rightarrow> int \<Rightarrow> bool option" where
  "isBitSet s bit' =
     (if 0 \<le> bit' \<and> bit' div 8 < int (length s)
      then Some (s ! nat (bit' div 8) AND push_bit (nat (bit' mod 8)) 1 \<noteq> 0)
      else None)"

text \<open>
  A buffer made by \<open>make([]byte, n)\<close> after the kernel has written its answer into it:
  the first \<open>n\<close> bytes of the answer, the rest still zero.
\<close>

definition filled :: "nat \<Rightarrow> 'a::zero list \<Rightarrow> 'a list" where
  "filled n reply = take n (reply @ replicate n 0)"

text \<open>\<open>unix.ByteSliceToString\<close>: the bytes before the first NUL.\<close>

definition ByteSliceToString :: "byte list \<Rightarrow> string" where
  "ByteSliceToString bs = map (\<lambda>b. char_of (unat b)) (takeWhile (\<lambda>b. b \<noteq> 0) bs)"

subsection \<open>The identifier\<close>

definition hexdigit :: "nat \<Rightarrow> char" where
  "hexdigit n = ''0123456789abcdef'' ! n"

text \<open>\<open>%02x\<close> of a byte.\<close>

definition fmt02x :: "byte \<Rightarrow> string" where
  "fmt02x b = [hexdigit (unat b div 16), hexdigit (unat b mod 16)]"

text \<open>Lines 150 to 165 of \<open>openGamepad\<close>: \<open>sdlID\<close> from the identity and the name.\<close>

definition sdlID_of :: "input_id \<Rightarrow> string \<Rightarrow> string" where
  "sdlID_of ident nm =
     (if vendor ident \<noteq> 0 \<and> product ident \<noteq> 0 \<and> version ident \<noteq> 0 then
        fmt02x (ucast (bustype ident)) @ fmt02x (ucast (drop_bit 8 (bustype ident))) @ ''0000'' @
        fmt02x (ucast (vendor ident)) @ fmt02x (ucast (drop_bit 8 (vendor ident))) @ ''0000'' @
        fmt02x (ucast (product ident)) @ fmt02x (ucast (drop_bit 8 (product ident))) @ ''0000'' @
        fmt02x (ucast (version ident)) @ fmt02x (ucast (drop_bit 8 (version ident))) @ ''0000''
      else
        (let bs0 = map (\<lambda>c. (of_char c :: byte)) nm;
             bs = (if length bs0 < 12 then bs0 @ replicate (12 - length bs0) 0 else bs0)
         in fmt02x (ucast (bustype ident)) @ fmt02x (ucast (drop_bit 8 (bustype ident))) @ ''0000'' @
            fmt02x (bs ! 0) @ fmt02x (bs ! 1) @ fmt02x (bs ! 2) @ fmt02x (bs ! 3) @
            fmt02x (bs ! 4) @ fmt02x (bs ! 5) @ fmt02x (bs ! 6) @ fmt02x (bs ! 7) @
            fmt02x (bs ! 8) @ fmt02x (bs ! 9) @ fmt02x (bs ! 10) @ fmt02x (bs ! 11)))"

subsection \<open>handleAbsEvent and pollAbsState\<close>

definition handleAbsEvent ::
  "(real \<Rightarrow> real) \<Rightarrow> nativeGamepad \<Rightarrow> int \<Rightarrow> int32 \<Rightarrow> nativeGamepad option" where
  "handleAbsEvent rd g code v =
     (if \<not> (0 \<le> code \<and> code < ABS_CNT) then None
      else
        let index = absMap g code in
        if code \<ge> ABS_HAT0X \<and> code \<le> ABS_HAT3Y then
          (let axis = (code - ABS_HAT0X) mod 2 in
           if axis = 0 then
             (if \<not> (0 \<le> index \<and> index < 4) then None
              else if sint v < 0 then
                Some (g\<lparr>hats := (hats g)(index := (hats g index OR hatLeft) AND NOT hatRight)\<rparr>)
              else if sint v > 0 then
                Some (g\<lparr>hats := (hats g)(index := (hats g index AND NOT hatLeft) OR hatRight)\<rparr>)
              else
                Some (g\<lparr>hats := (hats g)(index := hats g index AND NOT (hatLeft OR hatRight))\<rparr>))
           else if axis = 1 then
             (if \<not> (0 \<le> index \<and> index < 4) then None
              else if sint v < 0 then
                Some (g\<lparr>hats := (hats g)(index := (hats g index OR hatUp) AND NOT hatDown)\<rparr>)
              else if sint v > 0 then
                Some (g\<lparr>hats := (hats g)(index := (hats g index AND NOT hatUp) OR hatDown)\<rparr>)
              else
                Some (g\<lparr>hats := (hats g)(index := hats g index AND NOT (hatUp OR hatDown))\<rparr>))
           else Some g)
        else
          (let info = absInfo g code;
               v0 = real_of_int (sint v);
               r = rd (real_of_int (sint (maximum info)) - real_of_int (sint (minimum info)));
               v1 = (if r \<noteq> 0
                     then rd (rd (rd (rd (v0 - real_of_int (sint (minimum info))) / r) * 2) - 1)
                     else v0)
           in if 0 \<le> index \<and> index < ABS_CNT
              then Some (g\<lparr>axes := (axes g)(index := v1)\<rparr>)
              else None))"

text \<open>
  The loop of \<open>pollAbsState\<close> from \<open>code\<close> on. The result is the error of the failed
  \<open>ioctl\<close> if any, the gamepad, and the number of \<open>EVIOCGABS\<close> calls made so far.
\<close>

function pollAbsState_loop ::
  "abs_oracle \<Rightarrow> (real \<Rightarrow> real) \<Rightarrow> int \<Rightarrow> nativeGamepad \<Rightarrow> nat
     \<Rightarrow> (gp_error option \<times> nativeGamepad \<times> nat) option" where
  "pollAbsState_loop k rd code g n =
     (if code < ABS_CNT then
        (if \<not> 0 \<le> code then None
         else if absMap g code < 0 then pollAbsState_loop k rd (code + 1) g n
         else
           (case k n code of
              Inl e \<Rightarrow> Some (Some (AbsAtPollFailed e), g, Suc n)
            | Inr info \<Rightarrow>
                (let g1 = g\<lparr>absInfo := (absInfo g)(code := info)\<rparr> in
                 case handleAbsEvent rd g1 code (val (absInfo g1 code)) of
                   None \<Rightarrow> None
                 | Some g2 \<Rightarrow> pollAbsState_loop k rd (code + 1) g2 (Suc n))))
      else Some (None, g, n))"
  by pat_completeness auto
termination
  by (relation "measure (\<lambda>(k, rd, code, g, n). nat (ABS_CNT - code))") auto

definition pollAbsState ::
  "abs_oracle \<Rightarrow> (real \<Rightarrow> real) \<Rightarrow> nativeGamepad \<Rightarrow> nat
     \<Rightarrow> (gp_error option \<times> nativeGamepad \<times> nat) option" where
  "pollAbsState k rd g n = pollAbsState_loop k rd 0 g n"

subsection \<open>The per-device queries\<close>

definition axisValue :: "nativeGamepad \<Rightarrow> int \<Rightarrow> real option" where
  "axisValue g axis =
     (if axis < 0 \<or> axis \<ge> axisCount' g then Some 0
      else if 0 \<le> axis \<and> axis < ABS_CNT then Some (axes g axis) else None)"

definition isButtonPressed :: "nativeGamepad \<Rightarrow> int \<Rightarrow> bool option" where
  "isButtonPressed g button =
     (if button < 0 \<or> button \<ge> buttonCount' g then Some False
      else if 0 \<le> button \<and> button < KEY_CNT - BTN_MISC then Some (buttons g button)
      else None)"

definition hatState :: "nativeGamepad \<Rightarrow> int \<Rightarrow> int option" where
  "hatState g hat =
     (if hat < 0 \<or> hat \<ge> hatCount' g then Some hatCentered
      else if 0 \<le> hat \<and> hat < 4 then Some (hats g hat) else None)"

subsection \<open>The per-device update\<close>

text \<open>The event in the 24 bytes of a read: the time (bytes 0 to 15) is not used.\<close>

definition decode_event :: "byte list \<Rightarrow> input_event" where
  "decode_event buf =
     \<lparr>ev_typ = ucast (buf ! 16) OR push_bit 8 (ucast (buf ! 17)),
      ev_code = ucast (buf ! 18) OR push_bit 8 (ucast (buf ! 19)),
      ev_value = ucast (buf ! 20) OR push_bit 8 (ucast (buf ! 21)) OR
                 push_bit 16 (ucast (buf ! 22)) OR push_bit 24 (ucast (buf ! 23))\<rparr>"

definition close :: "nativeGamepad \<Rightarrow> nativeGamepad \<times> syscall list" where
  "close g = (g\<lparr>fd := 0\<rparr>, if fd g \<noteq> 0 then [SysClose (fd g)] else [])"

text \<open>
  The body of the loop of \<open>update\<close> for one event \<open>e\<close> (lines 316 to 335). The error of
  \<open>pollAbsState\<close> is dropped, as the code drops it.
\<close>

definition update_event ::
  "abs_oracle \<Rightarrow> (real \<Rightarrow> real) \<Rightarrow> nativeGamepad \<Rightarrow> input_event \<Rightarrow> nat
     \<Rightarrow> (nativeGamepad \<times> nat) option" where
  "update_event k rd g e n =
     (case (if uint (ev_typ e) = EV_SYN then
              (if uint (ev_code e) = SYN_DROPPED then Some (g\<lparr>dropped := True\<rparr>, n)
               else if uint (ev_code e) = SYN_REPORT then
                 (case pollAbsState k rd (g\<lparr>dropped := False\<rparr>) n of
                    None \<Rightarrow> None
                  | Some (err, g', n') \<Rightarrow> Some (g', n'))
               else Some (g, n))
            else Some (g, n)) of
        None \<Rightarrow> None
      | Some (g1, n1) \<Rightarrow>
          if dropped g1 then Some (g1, n1)
          else if uint (ev_typ e) = EV_KEY then
            (let i = uint (ev_code e - word_of_int BTN_MISC) in
             if \<not> (0 \<le> i \<and> i < KEY_CNT - BTN_MISC) then None
             else
               let idx = keyMap g1 i in
               if \<not> (0 \<le> idx \<and> idx < KEY_CNT - BTN_MISC) then None
               else Some (g1\<lparr>buttons := (buttons g1)(idx := ev_value e \<noteq> 0)\<rparr>, n1))
          else if uint (ev_typ e) = EV_ABS then
            (case handleAbsEvent rd g1 (uint (ev_code e)) (ev_value e) of
               None \<Rightarrow> None
             | Some g2 \<Rightarrow> Some (g2, n1))
          else Some (g1, n1))"

text \<open>
  The loop of \<open>update\<close> over the answers of the successive reads. The reads are
  non-blocking: once the answers are used up, the next read fails with \<open>EAGAIN\<close>.
\<close>

fun update_loop ::
  "abs_oracle \<Rightarrow> (real \<Rightarrow> real) \<Rightarrow> read_result list \<Rightarrow> nativeGamepad \<Rightarrow> nat
     \<Rightarrow> (gp_error option \<times> nativeGamepad \<times> nat \<times> syscall list) option" where
  "update_loop k rd [] g n = Some (None, g, n, [])"
| "update_loop k rd (ReadErr e # rs) g n =
     (if e = EAGAIN then Some (None, g, n, [])
      else if e = ENODEV then Some (None, fst (close g), n, snd (close g))
      else Some (Some (ReadFailed e), g, n, []))"
| "update_loop k rd (ReadOk bytes # rs) g n =
     (case update_event k rd g (decode_event (filled 24 bytes)) n of
        None \<Rightarrow> None
      | Some (g', n') \<Rightarrow> update_loop k rd rs g' n')"

definition update ::
  "abs_oracle \<Rightarrow> (real \<Rightarrow> real) \<Rightarrow> read_result list \<Rightarrow> nativeGamepad \<Rightarrow> nat
     \<Rightarrow> (gp_error option \<times> nativeGamepad \<times> nat \<times> syscall list) option" where
  "update k rd rs g n =
     (if fd g = 0 then Some (None, g, n, []) else update_loop k rd rs g n)"

subsection \<open>The collection of gamepads\<close>

text \<open>
  Modelled from the spec: the type \<open>Gamepad\<close> and the collection \<open>gamepads\<close> with its
  methods \<open>find\<close>, \<open>add\<close> and \<open>remove\<close> are declared in \<open>gamepad.go\<close>, which is not among
  the sources. The spec (section 3): a LogicalGamepad carries the fields of the native
  gamepad and \<open>sdlID\<close>; the registry is ``an insertion-order collection of
  LogicalGamepad, supporting: find-first-matching, add-new (returns newly created
  entry), remove-first-matching''. A new entry has Go's zero value in every field that
  \<open>add\<close> is not given.
\<close>

record Gamepad =
  name :: string
  sdlID :: string
  native :: nativeGamepad

definition zero_nativeGamepad :: nativeGamepad where
  "zero_nativeGamepad =
     \<lparr>fd = 0, path = [], keyMap = (\<lambda>_. 0), absMap = (\<lambda>_. 0),
      absInfo = (\<lambda>_. \<lparr>val = 0, minimum = 0, maximum = 0\<rparr>), dropped = False,
      axes = (\<lambda>_. 0), buttons = (\<lambda>_. False), hats = (\<lambda>_. 0),
      axisCount' = 0, buttonCount' = 0, hatCount' = 0\<rparr>"

text \<open>Modelled from the spec: find-first-matching.\<close>

definition gamepads_find :: "(Gamepad \<Rightarrow> bool) \<Rightarrow> Gamepad list \<Rightarrow> Gamepad option" where
  "gamepads_find cond gs = List.find cond gs"

text \<open>
  Modelled from the spec: add-new. \<open>add\<close> returns a pointer to the new entry, which
  \<open>openGamepad\<close> then fills in; \<open>gamepads_add\<close> is given the native part as it is when
  \<open>openGamepad\<close> returns.
\<close>

definition gamepads_add :: "Gamepad list \<Rightarrow> string \<Rightarrow> string \<Rightarrow> nativeGamepad \<Rightarrow> Gamepad list" where
  "gamepads_add gs nm sdl g = gs @ [\<lparr>name = nm, sdlID = sdl, native = g\<rparr>]"

text \<open>Modelled from the spec: remove-first-matching.\<close>

fun gamepads_remove :: "(Gamepad \<Rightarrow> bool) \<Rightarrow> Gamepad list \<Rightarrow> Gamepad list" where
  "gamepads_remove cond [] = []"
| "gamepads_remove cond (gp # gs) = (if cond gp then gs else gp # gamepads_remove cond gs)"

subsection \<open>openGamepad\<close>

text \<open>The loop over the key codes (lines 177 to 183), from \<open>code\<close> on.\<close>

function keyMap_loop ::
  "byte list \<Rightarrow> int \<Rightarrow> nativeGamepad \<Rightarrow> int \<Rightarrow> (nativeGamepad \<times> int) option" where
  "keyMap_loop keyBits code g buttonCount =
     (if code < KEY_CNT then
        (case isBitSet keyBits code of
           None \<Rightarrow> None
         | Some False \<Rightarrow> keyMap_loop keyBits (code + 1) g buttonCount
         | Some True \<Rightarrow>
             if \<not> (0 \<le> code - BTN_MISC \<and> code - BTN_MISC < KEY_CNT - BTN_MISC) then None
             else keyMap_loop keyBits (code + 1)
                    (g\<lparr>keyMap := (keyMap g)(code - BTN_MISC := buttonCount)\<rparr>) (buttonCount + 1))
      else Some (g, buttonCount))"
  by pat_completeness auto
termination
  by (relation "measure (\<lambda>(keyBits, code, g, buttonCount). nat (KEY_CNT - code))") auto

text \<open>
  The loop over the absolute codes (lines 184 to 201), from \<open>code\<close> on. After a hat
  code the loop goes on at \<open>code + 2\<close>: the \<open>code++\<close> of the body and the one of the
  \<open>for\<close> statement. The result is the errno of a failed \<open>EVIOCGABS\<close> if any, the gamepad,
  \<open>axisCount\<close>, \<open>hatCount\<close> and the number of \<open>EVIOCGABS\<close> calls made.
\<close>

function absMap_loop ::
  "abs_oracle \<Rightarrow> byte list \<Rightarrow> int \<Rightarrow> nativeGamepad \<Rightarrow> int \<Rightarrow> int \<Rightarrow> nat
     \<Rightarrow> (errno option \<times> nativeGamepad \<times> int \<times> int \<times> nat) option" where
  "absMap_loop k absBits code g axisCount hatCount n =
     (if code < ABS_CNT then
        (if \<not> 0 \<le> code then None
         else
           let g1 = g\<lparr>absMap := (absMap g)(code := - 1)\<rparr> in
           case isBitSet absBits code of
             None \<Rightarrow> None
           | Some False \<Rightarrow> absMap_loop k absBits (code + 1) g1 axisCount hatCount n
           | Some True \<Rightarrow>
               if code \<ge> ABS_HAT0X \<and> code \<le> ABS_HAT3Y then
                 absMap_loop k absBits (code + 2)
                   (g1\<lparr>absMap := (absMap g1)(code := hatCount)\<rparr>) axisCount (hatCount + 1) n
               else
                 (case k n code of
                    Inl e \<Rightarrow> Some (Some e, g1, axisCount, hatCount, Suc n)
                  | Inr info \<Rightarrow>
                      absMap_loop k absBits (code + 1)
                        (g1\<lparr>absInfo := (absInfo g1)(code := info),
                            absMap := (absMap g1)(code := axisCount)\<rparr>)
                        (axisCount + 1) hatCount (Suc n)))
      else Some (None, g, axisCount, hatCount, n))"
  by pat_completeness auto
termination
  by (relation "measure (\<lambda>(k, absBits, code, g, axisCount, hatCount, n). nat (ABS_CNT - code))")
    auto

text \<open>
  Lines 167 to 211: the gamepad is added to the collection, then mapped and polled.
  The result is the error returned, the collection, and the calls of \<open>unix.Close\<close>
  (the deferred function closes \<open>fd\<close> when an error is returned).
\<close>

definition openGamepad_add ::
  "(real \<Rightarrow> real) \<Rightarrow> abs_oracle \<Rightarrow> Gamepad list \<Rightarrow> string \<Rightarrow> string \<Rightarrow> string \<Rightarrow> int
     \<Rightarrow> byte list \<Rightarrow> byte list \<Rightarrow> (gp_error option \<times> Gamepad list \<times> syscall list) option" where
  "openGamepad_add rd k gamepads nm sdl p f keyBits absBits =
     (let g0 = zero_nativeGamepad\<lparr>path := p, fd := f\<rparr> in
      case keyMap_loop keyBits BTN_MISC g0 0 of
        None \<Rightarrow> None
      | Some (g1, buttonCount) \<Rightarrow>
          (case absMap_loop k absBits 0 g1 0 0 0 of
             None \<Rightarrow> None
           | Some (Some e, g2, axisCount, hatCount, n) \<Rightarrow>
               Some (Some (AbsAtOpenFailed e), gamepads_add gamepads nm sdl g2, [SysClose f])
           | Some (None, g2, axisCount, hatCount, n) \<Rightarrow>
               (let g3 = g2\<lparr>axisCount' := axisCount, buttonCount' := buttonCount,
                            hatCount' := hatCount\<rparr> in
                case pollAbsState k rd g3 n of
                  None \<Rightarrow> None
                | Some (Some err, g4, n') \<Rightarrow>
                    Some (Some err, gamepads_add gamepads nm sdl g4, [SysClose f])
                | Some (None, g4, n') \<Rightarrow>
                    Some (None, gamepads_add gamepads nm sdl g4, []))))"

text \<open>
  \<open>openGamepad\<close>: the error returned, the collection, and the calls of \<open>unix.Open\<close> and
  \<open>unix.Close\<close> in order. The name is asked for with \<open>_EVIOCGNAME(uint(len(name)))\<close>
  while \<open>name\<close> is \<open>"Unknown"\<close>: the kernel writes at most that many bytes of its answer
  into the 256 zero bytes of \<open>cname\<close>.
\<close>

definition openGamepad ::
  "(real \<Rightarrow> real) \<Rightarrow> device \<Rightarrow> Gamepad list \<Rightarrow> string
     \<Rightarrow> (gp_error option \<times> Gamepad list \<times> syscall list) option" where
  "openGamepad rd dev gamepads p =
     (if gamepads_find (\<lambda>gamepad. path (native gamepad) = p) gamepads \<noteq> None
      then Some (None, gamepads, [])
      else
        case dev_open dev of
          Inl e \<Rightarrow>
            if e = EACCES then Some (None, gamepads, [SysOpen p])
            else if e = ENOENT then Some (None, gamepads, [SysOpen p])
            else Some (Some (OpenFailed e), gamepads, [SysOpen p])
        | Inr f \<Rightarrow>
           (case dev_evBits dev of
              Inl e \<Rightarrow> Some (Some (EvBitsFailed e), gamepads, [SysOpen p, SysClose f])
            | Inr ev \<Rightarrow>
           (case dev_keyBits dev of
              Inl e \<Rightarrow> Some (Some (KeyBitsFailed e), gamepads, [SysOpen p, SysClose f])
            | Inr ky \<Rightarrow>
           (case dev_absBits dev of
              Inl e \<Rightarrow> Some (Some (AbsBitsFailed e), gamepads, [SysOpen p, SysClose f])
            | Inr ab \<Rightarrow>
           (case dev_id dev of
              Inl e \<Rightarrow> Some (Some (IDFailed e), gamepads, [SysOpen p, SysClose f])
            | Inr ident \<Rightarrow>
                (let evBits = filled (nat ((EV_CNT + 7) div 8)) ev;
                     keyBits = filled (nat ((KEY_CNT + 7) div 8)) ky;
                     absBits = filled (nat ((ABS_CNT + 7) div 8)) ab
                 in
                 case isBitSet evBits EV_KEY of
                   None \<Rightarrow> None
                 | Some False \<Rightarrow> Some (None, gamepads, [SysOpen p, SysClose f])
                 | Some True \<Rightarrow>
                 (case isBitSet evBits EV_ABS of
                   None \<Rightarrow> None
                 | Some False \<Rightarrow> Some (None, gamepads, [SysOpen p, SysClose f])
                 | Some True \<Rightarrow>
                    (let nm = (case dev_name dev of
                                 Inl e \<Rightarrow> ''Unknown''
                               | Inr cname \<Rightarrow> ByteSliceToString (filled 256 (take (length ''Unknown'') cname)));
                         sdl = sdlID_of ident nm
                     in
                     case openGamepad_add rd (dev_abs dev) gamepads nm sdl p f keyBits absBits of
                       None \<Rightarrow> None
                     | Some (err, gamepads', cl) \<Rightarrow> Some (err, gamepads', SysOpen p # cl)))))))))"

section \<open>Invariants, the layouts of the spec, and concrete inputs\<close>

text \<open>
  The counts are within the sizes of the arrays \<open>axes\<close>, \<open>buttons\<close> and \<open>hats\<close>.
  \<open>openGamepad\<close> establishes this and nothing changes the counts afterwards.
\<close>

definition counts_ok :: "nativeGamepad \<Rightarrow> bool" where
  "counts_ok g \<longleftrightarrow>
     axisCount' g \<le> ABS_CNT \<and> buttonCount' g \<le> KEY_CNT - BTN_MISC \<and> hatCount' g \<le> 4"

definition demo_gamepad :: nativeGamepad where
  "demo_gamepad =
     zero_nativeGamepad\<lparr>fd := 5, axes := (\<lambda>i. if i = 1 then 1 / 2 else 0),
       buttons := (\<lambda>i. i = 0), hats := (\<lambda>i. if i = 0 then 3 else 0),
       axisCount' := 2, buttonCount' := 2, hatCount' := 1\<rparr>"

text \<open>
  Reading an identifier back: the value of a lowercase hexadecimal digit, of a pair of
  digits, and the bytes that a string of such pairs stands for.
\<close>

fun position :: "'a \<Rightarrow> 'a list \<Rightarrow> nat option" where
  "position c [] = None"
| "position c (x # xs) = (if c = x then Some 0 else map_option Suc (position c xs))"

definition hexval :: "char \<Rightarrow> nat option" where
  "hexval c = position c ''0123456789abcdef''"

definition hexbyte :: "string \<Rightarrow> nat option" where
  "hexbyte s =
     (case s of
        [a, b] \<Rightarrow> (case (hexval a, hexval b) of (Some x, Some y) \<Rightarrow> Some (16 * x + y) | _ \<Rightarrow> None)
      | _ \<Rightarrow> None)"

fun unhex :: "string \<Rightarrow> byte list option" where
  "unhex [] = Some []"
| "unhex [a] = None"
| "unhex (a # b # s) =
     (case hexbyte [a, b] of
        None \<Rightarrow> None
      | Some n \<Rightarrow> (case unhex s of None \<Rightarrow> None | Some bs \<Rightarrow> Some (of_nat n # bs)))"

text \<open>
  The layouts in the words of the spec: a 16-bit field in little-endian order is its low
  byte, then its high byte; the name ``padded or truncated to exactly 12 bytes'' is its
  first 12 bytes, with zero bytes after a shorter name.
\<close>

definition spec_le16 :: "uint16 \<Rightarrow> byte list" where
  "spec_le16 w = [of_nat (unat w mod 256), of_nat (unat w div 256)]"

definition spec_name12 :: "string \<Rightarrow> byte list" where
  "spec_name12 nm = take 12 (map of_char nm @ replicate 12 0)"

text \<open>Two identities: a USB gamepad, and a Bluetooth device that reports no ids.\<close>

definition xbox_id :: input_id where
  "xbox_id = \<lparr>bustype = 0x0003, vendor = 0x045e, product = 0x028e, version = 0x0114\<rparr>"

definition noid :: input_id where
  "noid = \<lparr>bustype = 0x0005, vendor = 0, product = 0, version = 0\<rparr>"

text \<open>
  Hats: a direction bit of a mask, the masks in which neither left and right nor up and
  down are set together, the events that \<open>handleAbsEvent\<close> handles without a panic (the
  code is within \<open>absMap\<close> and mapped to an index within \<open>hats\<close> or \<open>axes\<close>), and a
  sequence of events applied through \<open>handleAbsEvent\<close>.
\<close>

definition hat_has :: "int \<Rightarrow> int \<Rightarrow> bool" where
  "hat_has h m \<longleftrightarrow> h AND m \<noteq> 0"

definition hat_exclusive :: "int \<Rightarrow> bool" where
  "hat_exclusive h \<longleftrightarrow>
     \<not> (hat_has h hatLeft \<and> hat_has h hatRight) \<and> \<not> (hat_has h hatUp \<and> hat_has h hatDown)"

definition hats_exclusive :: "nativeGamepad \<Rightarrow> bool" where
  "hats_exclusive g \<longleftrightarrow> (\<forall>i\<in>{0..<4}. hat_exclusive (hats g i))"

definition abs_event_ok :: "nativeGamepad \<Rightarrow> int \<Rightarrow> bool" where
  "abs_event_ok g code \<longleftrightarrow>
     0 \<le> code \<and> code < ABS_CNT \<and> 0 \<le> absMap g code \<and>
     absMap g code < (if ABS_HAT0X \<le> code \<and> code \<le> ABS_HAT3Y then 4 else ABS_CNT)"

fun handleAbsEvents ::
  "(real \<Rightarrow> real) \<Rightarrow> nativeGamepad \<Rightarrow> (int \<times> int32) list \<Rightarrow> nativeGamepad option" where
  "handleAbsEvents rd g [] = Some g"
| "handleAbsEvents rd g (e # es) =
     (case handleAbsEvent rd g (fst e) (snd e) of
        None \<Rightarrow> None
      | Some g' \<Rightarrow> handleAbsEvents rd g' es)"

definition hat_gamepad :: nativeGamepad where
  "hat_gamepad =
     zero_nativeGamepad\<lparr>fd := 5, absMap := (\<lambda>c. if c = 0x10 \<or> c = 0x11 then 0 else - 1),
       hatCount' := 1\<rparr>"

definition hat_events :: "(int \<times> int32) list" where
  "hat_events = [(0x10, - 1), (0x11, 1), (0x10, 1)]"

text \<open>
  Axes. What the proofs need of the rounding of float64: an integer of magnitude at most
  \<open>2 ^ 53\<close> and the number \<open>1 / 2\<close> are floats, so rounding leaves them as they are.
\<close>

definition float64_exact :: "(real \<Rightarrow> real) \<Rightarrow> bool" where
  "float64_exact rd \<longleftrightarrow>
     (\<forall>z::int. \<bar>z\<bar> \<le> 2 ^ 53 \<longrightarrow> rd (real_of_int z) = real_of_int z) \<and> rd (1 / 2) = 1 / 2"

text \<open>The linear map of the spec, which takes \<open>lo\<close> to \<open>- 1\<close> and \<open>hi\<close> to \<open>1\<close>.\<close>

definition spec_rescale :: "real \<Rightarrow> real \<Rightarrow> real \<Rightarrow> real" where
  "spec_rescale lo hi x = 2 * (x - lo) / (hi - lo) - 1"

text \<open>
  A gamepad with one axis, calibrated from \<open>- 100\<close> to \<open>100\<close>, and one whose calibration
  has minimum and maximum both \<open>5\<close>.
\<close>

definition stick_gamepad :: nativeGamepad where
  "stick_gamepad =
     zero_nativeGamepad\<lparr>fd := 5, absMap := (\<lambda>c. if c = 0 then 0 else - 1),
       absInfo := (\<lambda>c. \<lparr>val = 0, minimum = - 100, maximum = 100\<rparr>), axisCount' := 1\<rparr>"

definition flat_gamepad :: nativeGamepad where
  "flat_gamepad =
     zero_nativeGamepad\<lparr>fd := 5, absMap := (\<lambda>c. if c = 0 then 0 else - 1),
       absInfo := (\<lambda>c. \<lparr>val = 0, minimum = 5, maximum = 5\<rparr>), axisCount' := 1\<rparr>"

text \<open>
  The update loop: the report-complete and the overflow events, the answers of the reads
  among which no event is a report-complete one, and concrete events and reads (a press
  of the key \<open>0x130\<close>, an overflow, a move of the absolute code 0 to 9) with an \<open>EVIOCGABS\<close>
  that always fails.
\<close>

definition is_report :: "input_event \<Rightarrow> bool" where
  "is_report e \<longleftrightarrow> uint (ev_typ e) = EV_SYN \<and> uint (ev_code e) = SYN_REPORT"

definition is_overflow :: "input_event \<Rightarrow> bool" where
  "is_overflow e \<longleftrightarrow> uint (ev_typ e) = EV_SYN \<and> uint (ev_code e) = SYN_DROPPED"

fun no_report :: "read_result list \<Rightarrow> bool" where
  "no_report [] = True"
| "no_report (ReadOk bytes # rs) = (\<not> is_report (decode_event (filled 24 bytes)) \<and> no_report rs)"
| "no_report (ReadErr e # rs) = no_report rs"

definition dropped_gamepad :: nativeGamepad where
  "dropped_gamepad = demo_gamepad\<lparr>dropped := True\<rparr>"

definition key_event :: input_event where
  "key_event = \<lparr>ev_typ = 0x01, ev_code = 0x130, ev_value = 1\<rparr>"

definition overflow_event :: input_event where
  "overflow_event = \<lparr>ev_typ = 0x00, ev_code = 0x03, ev_value = 0\<rparr>"

definition key_bytes :: "byte list" where
  "key_bytes = [0, 0, 0, 0, 0, 0, 0, 0, 0, 0, 0, 0, 0, 0, 0, 0, 0x01, 0x00, 0x30, 0x01, 1, 0, 0, 0]"

definition abs_bytes :: "byte list" where
  "abs_bytes = [0, 0, 0, 0, 0, 0, 0, 0, 0, 0, 0, 0, 0, 0, 0, 0, 0x03, 0x00, 0x00, 0x00, 9, 0, 0, 0]"

definition failing_abs :: abs_oracle where
  "failing_abs = (\<lambda>n c. Inl (EOTHER 5))"

text \<open>
  The result of \<open>openGamepad\<close>, taken apart: the error returned, the collection and the
  system calls made.
\<close>

definition result_error ::
  "(gp_error option \<times> Gamepad list \<times> syscall list) option \<Rightarrow> gp_error option" where
  "result_error r = (case r of None \<Rightarrow> None | Some (err, gs, cl) \<Rightarrow> err)"

definition result_gamepads ::
  "(gp_error option \<times> Gamepad list \<times> syscall list) option \<Rightarrow> Gamepad list" where
  "result_gamepads r = (case r of None \<Rightarrow> [] | Some (err, gs, cl) \<Rightarrow> gs)"

definition result_calls ::
  "(gp_error option \<times> Gamepad list \<times> syscall list) option \<Rightarrow> syscall list" where
  "result_calls r = (case r of None \<Rightarrow> [] | Some (err, gs, cl) \<Rightarrow> cl)"

text \<open>
  A path is present in the collection when some gamepad of it has that path; a device
  supports an event type when the bit of the type is set in its event-type bitmap, as
  \<open>openGamepad\<close> reads it into a buffer of \<open>(EV_CNT+7)/8\<close> bytes.
\<close>

definition present :: "string \<Rightarrow> Gamepad list \<Rightarrow> bool" where
  "present p gs \<longleftrightarrow> p \<in> set (map (\<lambda>gamepad. path (native gamepad)) gs)"

definition ev_supports :: "byte list \<Rightarrow> int \<Rightarrow> bool" where
  "ev_supports ev t \<longleftrightarrow> isBitSet (filled (nat ((EV_CNT + 7) div 8)) ev) t = Some True"

text \<open>
  The invariants of the two loops over the absolute codes. Every entry of \<open>absMap\<close> is
  below the size of the array it indexes: \<open>hats\<close> for a hat code, \<open>axes\<close> for another
  code. During the loop of \<open>openGamepad\<close> the axis count is at most the code reached,
  and twice the hat count is at most the distance from the first hat code.
\<close>

definition absMap_ok :: "nativeGamepad \<Rightarrow> bool" where
  "absMap_ok g \<longleftrightarrow>
     (\<forall>c. 0 \<le> c \<and> c < ABS_CNT \<longrightarrow>
        absMap g c < (if ABS_HAT0X \<le> c \<and> c \<le> ABS_HAT3Y then 4 else ABS_CNT))"

definition abs_loop_inv :: "int \<Rightarrow> nativeGamepad \<Rightarrow> int \<Rightarrow> int \<Rightarrow> bool" where
  "abs_loop_inv code g ac hc \<longleftrightarrow>
     0 \<le> code \<and> code \<le> ABS_CNT \<and> absMap_ok g \<and> 0 \<le> ac \<and> ac \<le> code \<and> 0 \<le> hc \<and> hc \<le> 4 \<and>
     (code \<le> ABS_HAT3Y \<longrightarrow> 2 * hc \<le> max 0 (code - ABS_HAT0X))"

definition same_but_abs :: "nativeGamepad \<Rightarrow> nativeGamepad \<Rightarrow> bool" where
  "same_but_abs g g' \<longleftrightarrow> g' = g\<lparr>absMap := absMap g', absInfo := absInfo g'\<rparr>"

definition abs_loop_post :: "nativeGamepad \<Rightarrow> nativeGamepad \<Rightarrow> int \<Rightarrow> int \<Rightarrow> bool" where
  "abs_loop_post g g' ac hc \<longleftrightarrow>
     absMap_ok g' \<and> 0 \<le> ac \<and> ac \<le> ABS_CNT \<and> 0 \<le> hc \<and> hc \<le> 4 \<and> same_but_abs g g'"

definition same_but_state :: "nativeGamepad \<Rightarrow> nativeGamepad \<Rightarrow> bool" where
  "same_but_state g g' \<longleftrightarrow> g' = g\<lparr>absInfo := absInfo g', axes := axes g', hats := hats g'\<rparr>"

text \<open>
  Devices. A pad with two buttons, the axes X and Y and one hat, every axis at rest
  in the range from -100 to 100; a keyboard, which reports key events and no absolute
  axes; the pad with every \<open>EVIOCGABS\<close> failing; and the pad with the absolute codes
  \<open>0x17\<close> (\<open>ABS_HAT3Y\<close>) and \<open>0x18\<close> (\<open>ABS_PRESSURE\<close>) only.
\<close>

definition steady_abs :: abs_oracle where
  "steady_abs = (\<lambda>n c. Inr \<lparr>val = 0, minimum = - 100, maximum = 100\<rparr>)"

definition pad_device :: device where
  "pad_device =
     \<lparr>dev_open = Inr 7, dev_evBits = Inr [0x0b, 0, 0, 0],
      dev_keyBits = Inr (replicate 38 0 @ [0x03]),
      dev_absBits = Inr [0x03, 0, 0x03, 0, 0, 0, 0, 0],
      dev_id = Inr xbox_id, dev_name = Inr [0x50, 0x61, 0x64, 0],
      dev_abs = steady_abs\<rparr>"

definition keyboard_device :: device where
  "keyboard_device = pad_device\<lparr>dev_evBits := Inr [0x03, 0, 0, 0]\<rparr>"

definition broken_device :: device where
  "broken_device = pad_device\<lparr>dev_abs := failing_abs\<rparr>"

definition hat3y_device :: device where
  "hat3y_device = pad_device\<lparr>dev_absBits := Inr [0, 0, 0x80, 0x01, 0, 0, 0, 0]\<rparr>"

definition event0 :: string where
  "event0 = ''/dev/input/event0''"

definition demo_entry :: Gamepad where
  "demo_entry = \<lparr>name = ''Pad'', sdlID = ''030000005e0400008e02000014010000'',
     native = demo_gamepad\<lparr>path := event0\<rparr>\<rparr>"

text \<open>
  Reads for the update loop: the event in the 24 bytes of a read, a button release, an
  overflow and a report-complete event; the pad after the release; and a device whose
  axes have all moved to the maximum.
\<close>

definition event_of :: "byte list \<Rightarrow> input_event" where
  "event_of bytes = decode_event (filled 24 bytes)"

definition report_event :: input_event where
  "report_event = \<lparr>ev_typ = 0x00, ev_code = 0x00, ev_value = 0\<rparr>"

definition release_bytes :: "byte list" where
  "release_bytes = replicate 16 0 @ [0x01, 0x00, 0x30, 0x01, 0, 0, 0, 0]"

definition overflow_bytes :: "byte list" where
  "overflow_bytes = replicate 16 0 @ [0x00, 0x00, 0x03, 0x00, 0, 0, 0, 0]"

definition report_bytes :: "byte list" where
  "report_bytes = replicate 16 0 @ [0x00, 0x00, 0x00, 0x00, 0, 0, 0, 0]"

definition released_gamepad :: nativeGamepad where
  "released_gamepad = demo_gamepad\<lparr>buttons := (buttons demo_gamepad)(0 := False)\<rparr>"

definition moved_abs :: abs_oracle where
  "moved_abs = (\<lambda>n c. Inr \<lparr>val = 100, minimum = - 100, maximum = 100\<rparr>)"

section \<open>Properties\<close>

subsection \<open>The queries\<close>

text \<open>
  C10: on a gamepad whose counts are within the arrays, \<open>axisValue\<close>, \<open>isButtonPressed\<close>
  and \<open>hatState\<close> return for every index (they never panic); for an index below 0 or
  at or above the count they return 0, false and the centered hat; for an index in
  range they return the stored value.
\<close>

theorem queries_total:
  assumes "counts_ok g"
  shows "(\<exists>x. axisValue g i = Some x) \<and> (\<exists>b. isButtonPressed g i = Some b) \<and>
         (\<exists>h. hatState g i = Some h) \<and>
         (i < 0 \<or> i \<ge> axisCount' g \<longrightarrow> axisValue g i = Some 0) \<and>
         (i < 0 \<or> i \<ge> buttonCount' g \<longrightarrow> isButtonPressed g i = Some False) \<and>
         (i < 0 \<or> i \<ge> hatCount' g \<longrightarrow> hatState g i = Some hatCentered) \<and>
         (0 \<le> i \<and> i < axisCount' g \<longrightarrow> axisValue g i = Some (axes g i)) \<and>
         (0 \<le> i \<and> i < buttonCount' g \<longrightarrow> isButtonPressed g i = Some (buttons g i)) \<and>
         (0 \<le> i \<and> i < hatCount' g \<longrightarrow> hatState g i = Some (hats g i))"
  using assms unfolding counts_ok_def axisValue_def isButtonPressed_def hatState_def
  by auto

theorem queries_total_witness:
  "counts_ok demo_gamepad \<and>
   axisValue demo_gamepad 2 = Some 0 \<and> axisValue demo_gamepad (- 1) = Some 0 \<and>
   isButtonPressed demo_gamepad 2 = Some False \<and>
   hatState demo_gamepad 1 = Some hatCentered \<and>
   axisValue demo_gamepad 1 = Some (1 / 2) \<and>
   isButtonPressed demo_gamepad 0 = Some True \<and>
   hatState demo_gamepad 0 = Some 3"
proof -
  have ok: "counts_ok demo_gamepad"
    by (simp add: counts_ok_def demo_gamepad_def zero_nativeGamepad_def input_consts)
  have c: "axisCount' demo_gamepad = 2" "buttonCount' demo_gamepad = 2"
    "hatCount' demo_gamepad = 1" "axes demo_gamepad 1 = 1 / 2"
    "buttons demo_gamepad 0 = True" "hats demo_gamepad 0 = 3"
    by (simp_all add: demo_gamepad_def zero_nativeGamepad_def)
  show ?thesis
    using ok queries_total [OF ok, of 2] queries_total [OF ok, of "- 1"]
      queries_total [OF ok, of 1] queries_total [OF ok, of 0]
    by (simp add: c)
qed

subsection \<open>The identifier\<close>

lemma hexval_hexdigit: "n < 16 \<Longrightarrow> hexval (hexdigit n) = Some n"
proof -
  assume "n < 16"
  then have n: "n \<in> set [0..<16]" by simp
  have "list_all (\<lambda>n. hexval (hexdigit n) = Some n) [0..<16]"
    by code_simp
  with n show ?thesis
    unfolding list_all_iff by blast
qed

lemma hexbyte_fmt02x: "hexbyte (fmt02x b) = Some (unat b)"
proof -
  have "unat b < 256" using unsigned_less [of b, where ?'a = nat] by simp
  then have "unat b div 16 < 16" by simp
  then show ?thesis
    by (simp add: hexbyte_def fmt02x_def hexval_hexdigit)
qed

lemma length_fmt02x: "length (fmt02x b) = 2"
  by (simp add: fmt02x_def)

lemma unhex_fmt02x: "unhex (fmt02x b @ s) = (case unhex s of None \<Rightarrow> None | Some bs \<Rightarrow> Some (b # bs))"
proof -
  have "unhex (fmt02x b @ s) = (case hexbyte (fmt02x b) of None \<Rightarrow> None
      | Some n \<Rightarrow> (case unhex s of None \<Rightarrow> None | Some bs \<Rightarrow> Some (of_nat n # bs)))"
    by (simp add: fmt02x_def)
  moreover have "(of_nat (unat b) :: byte) = b" by simp
  ultimately show ?thesis by (simp add: hexbyte_fmt02x split: option.split)
qed

lemma unhex_zeros: "unhex (''0000'' @ s) = (case unhex s of None \<Rightarrow> None | Some bs \<Rightarrow> Some (0 # 0 # bs))"
  by (simp add: hexbyte_def hexval_def split: option.splits)

lemma hexdigit_in: "n < 16 \<Longrightarrow> hexdigit n \<in> set ''0123456789abcdef''"
  by (simp add: hexdigit_def del: set_simps)

lemma set_fmt02x: "set (fmt02x b) \<subseteq> set ''0123456789abcdef''"
proof -
  have "unat b < 256" using unsigned_less [of b, where ?'a = nat] by simp
  then have "unat b div 16 < 16" "unat b mod 16 < 16" by simp_all
  then show ?thesis
    unfolding fmt02x_def using hexdigit_in by (metis empty_set insert_subset list.simps(15) subset_refl empty_subsetI)
qed

lemma spec_le16_eq: "spec_le16 w = [ucast w, ucast (drop_bit 8 w)]"
proof -
  have w: "unat w < 65536" using unsigned_less [of w, where ?'a = nat] by simp
  have d: "unat (drop_bit 8 w) = unat w div 256"
    by (simp add: drop_bit_eq_div unat_div)
  have lo: "unat (ucast w :: byte) = unat w mod 256"
    by (simp add: unsigned_ucast_eq take_bit_eq_mod)
  have "unat (ucast (drop_bit 8 w) :: byte) = unat (drop_bit 8 w) mod 256"
    by (simp add: unsigned_ucast_eq take_bit_eq_mod)
  with d w have hi: "unat (ucast (drop_bit 8 w) :: byte) = unat w div 256"
    by simp
  have "(of_nat (unat w mod 256) :: byte) = ucast w"
    using lo by (metis of_nat_unat ucast_id)
  moreover have "(of_nat (unat w div 256) :: byte) = ucast (drop_bit 8 w)"
    using hi by (metis of_nat_unat ucast_id)
  ultimately show ?thesis by (simp add: spec_le16_def)
qed

lemma first12: "12 \<le> length bs \<Longrightarrow>
  [bs ! 0, bs ! 1, bs ! 2, bs ! 3, bs ! 4, bs ! 5, bs ! 6, bs ! 7, bs ! 8, bs ! 9, bs ! 10, bs ! 11]
   = take 12 bs"
  by (simp add: list_eq_iff_nth_eq nth_Cons' less_Suc_eq eval_nat_numeral)

lemma unhex_concat: "unhex (concat (map fmt02x bs)) = Some bs"
  by (induction bs) (simp_all add: unhex_fmt02x)

lemma set_concat_fmt02x: "set (concat (map fmt02x bs)) \<subseteq> set ''0123456789abcdef''"
  using set_fmt02x by (induction bs) (simp_all del: set_simps, auto)

lemma length_concat_fmt02x: "length (concat (map fmt02x bs)) = 2 * length bs"
  by (induction bs) (simp_all add: length_fmt02x)

lemma sdlID_of_fallback:
  assumes "\<not> (vendor idn \<noteq> 0 \<and> product idn \<noteq> 0 \<and> version idn \<noteq> 0)"
  shows "sdlID_of idn nm =
           fmt02x (ucast (bustype idn)) @ fmt02x (ucast (drop_bit 8 (bustype idn))) @ ''0000'' @
           concat (map fmt02x (spec_name12 nm))"
proof -
  define bs0 where "bs0 = map (\<lambda>c. (of_char c :: byte)) nm"
  define bs where "bs = (if length bs0 < 12 then bs0 @ replicate (12 - length bs0) 0 else bs0)"
  have e: "sdlID_of idn nm =
      fmt02x (ucast (bustype idn)) @ fmt02x (ucast (drop_bit 8 (bustype idn))) @ ''0000'' @
      fmt02x (bs ! 0) @ fmt02x (bs ! 1) @ fmt02x (bs ! 2) @ fmt02x (bs ! 3) @
      fmt02x (bs ! 4) @ fmt02x (bs ! 5) @ fmt02x (bs ! 6) @ fmt02x (bs ! 7) @
      fmt02x (bs ! 8) @ fmt02x (bs ! 9) @ fmt02x (bs ! 10) @ fmt02x (bs ! 11)"
    unfolding sdlID_of_def Let_def bs_def bs0_def by (simp only: assms if_False)
  have l: "12 \<le> length bs" by (simp add: bs_def)
  have t: "take 12 bs = spec_name12 nm"
    by (simp add: bs_def bs0_def spec_name12_def)
  have "fmt02x (bs ! 0) @ fmt02x (bs ! 1) @ fmt02x (bs ! 2) @ fmt02x (bs ! 3) @
      fmt02x (bs ! 4) @ fmt02x (bs ! 5) @ fmt02x (bs ! 6) @ fmt02x (bs ! 7) @
      fmt02x (bs ! 8) @ fmt02x (bs ! 9) @ fmt02x (bs ! 10) @ fmt02x (bs ! 11) =
      concat (map fmt02x [bs ! 0, bs ! 1, bs ! 2, bs ! 3, bs ! 4, bs ! 5, bs ! 6, bs ! 7,
        bs ! 8, bs ! 9, bs ! 10, bs ! 11])"
    by simp
  also have "\<dots> = concat (map fmt02x (spec_name12 nm))"
    unfolding first12 [OF l] t ..
  finally show ?thesis
    unfolding e by simp
qed

text \<open>
  C4: when vendor, product and version are all non-zero, the identifier is 32 lowercase
  hexadecimal digits; read back as 16 bytes it is the bus type, the vendor, the product
  and the version, each as a little-endian 16-bit field followed by two zero bytes; and
  it does not depend on the name.
\<close>

theorem sdlID_hardware_layout:
  assumes "vendor ident \<noteq> 0" and "product ident \<noteq> 0" and "version ident \<noteq> 0"
  shows "length (sdlID_of ident nm) = 32 \<and>
         set (sdlID_of ident nm) \<subseteq> set ''0123456789abcdef'' \<and>
         unhex (sdlID_of ident nm) =
           Some (spec_le16 (bustype ident) @ [0, 0] @ spec_le16 (vendor ident) @ [0, 0] @
                 spec_le16 (product ident) @ [0, 0] @ spec_le16 (version ident) @ [0, 0]) \<and>
         sdlID_of ident nm = sdlID_of ident nm'"
proof -
  let ?s = "sdlID_of ident nm"
  have s: "?s =
      fmt02x (ucast (bustype ident)) @ fmt02x (ucast (drop_bit 8 (bustype ident))) @ ''0000'' @
      fmt02x (ucast (vendor ident)) @ fmt02x (ucast (drop_bit 8 (vendor ident))) @ ''0000'' @
      fmt02x (ucast (product ident)) @ fmt02x (ucast (drop_bit 8 (product ident))) @ ''0000'' @
      fmt02x (ucast (version ident)) @ fmt02x (ucast (drop_bit 8 (version ident))) @ ''0000'' @ []"
    using assms by (simp add: sdlID_of_def)
  have len: "length ?s = 32"
    unfolding s by (simp add: length_fmt02x)
  have hex: "set ?s \<subseteq> set ''0123456789abcdef''"
    unfolding s using set_fmt02x by (simp del: set_simps) simp
  have dec: "unhex ?s =
      Some (spec_le16 (bustype ident) @ [0, 0] @ spec_le16 (vendor ident) @ [0, 0] @
            spec_le16 (product ident) @ [0, 0] @ spec_le16 (version ident) @ [0, 0])"
    unfolding s unhex_fmt02x unhex_zeros spec_le16_eq by simp
  have det: "sdlID_of ident nm = sdlID_of ident nm'"
    using assms by (simp add: sdlID_of_def)
  from len hex dec det show ?thesis by blast
qed

theorem sdlID_hardware_layout_witness:
  "vendor xbox_id \<noteq> 0 \<and> product xbox_id \<noteq> 0 \<and> version xbox_id \<noteq> 0 \<and>
   sdlID_of xbox_id ''Pad'' = ''030000005e0400008e02000014010000'' \<and>
   length (sdlID_of xbox_id ''Pad'') = 32 \<and>
   unhex (sdlID_of xbox_id ''Pad'') =
     Some [0x03, 0x00, 0, 0, 0x5e, 0x04, 0, 0, 0x8e, 0x02, 0, 0, 0x14, 0x01, 0, 0]"
proof -
  have v: "vendor xbox_id \<noteq> 0" "product xbox_id \<noteq> 0" "version xbox_id \<noteq> 0"
    by (simp_all add: xbox_id_def)
  have e: "sdlID_of xbox_id ''Pad'' = ''030000005e0400008e02000014010000''"
    by code_simp
  have f: "spec_le16 (bustype xbox_id) = [0x03, 0x00]" "spec_le16 (vendor xbox_id) = [0x5e, 0x04]"
    "spec_le16 (product xbox_id) = [0x8e, 0x02]" "spec_le16 (version xbox_id) = [0x14, 0x01]"
    by (simp_all add: spec_le16_def xbox_id_def)
  show ?thesis
    using v e sdlID_hardware_layout [OF v, of "''Pad''" "''Pad''"] by (simp add: f)
qed

text \<open>
  C5: when vendor, product and version are not all non-zero, the identifier is 32
  lowercase hexadecimal digits; read back as 16 bytes it is the bus type as a
  little-endian 16-bit field, two zero bytes, and the name padded with zero bytes or
  truncated to exactly 12 bytes; and it depends only on the bus type and the name.
\<close>

theorem sdlID_name_fallback:
  assumes "\<not> (vendor ident \<noteq> 0 \<and> product ident \<noteq> 0 \<and> version ident \<noteq> 0)"
  shows "length (sdlID_of ident nm) = 32 \<and>
         set (sdlID_of ident nm) \<subseteq> set ''0123456789abcdef'' \<and>
         length (spec_name12 nm) = 12 \<and>
         unhex (sdlID_of ident nm) = Some (spec_le16 (bustype ident) @ [0, 0] @ spec_name12 nm) \<and>
         (\<not> (vendor ident' \<noteq> 0 \<and> product ident' \<noteq> 0 \<and> version ident' \<noteq> 0) \<and>
          bustype ident' = bustype ident \<longrightarrow> sdlID_of ident' nm = sdlID_of ident nm)"
proof -
  note s = sdlID_of_fallback [OF assms, of nm]
  have n12: "length (spec_name12 nm) = 12" by (simp add: spec_name12_def)
  have len: "length (sdlID_of ident nm) = 32"
    unfolding s by (simp add: length_fmt02x length_concat_fmt02x n12)
  have hex: "set (sdlID_of ident nm) \<subseteq> set ''0123456789abcdef''"
    unfolding s using set_fmt02x set_concat_fmt02x by (simp del: set_simps) simp
  have dec: "unhex (sdlID_of ident nm) = Some (spec_le16 (bustype ident) @ [0, 0] @ spec_name12 nm)"
    unfolding s unhex_fmt02x unhex_zeros unhex_concat spec_le16_eq by simp
  have det: "\<not> (vendor ident' \<noteq> 0 \<and> product ident' \<noteq> 0 \<and> version ident' \<noteq> 0) \<and>
          bustype ident' = bustype ident \<longrightarrow> sdlID_of ident' nm = sdlID_of ident nm"
    using sdlID_of_fallback [of ident' nm] s by simp
  from n12 len hex dec det show ?thesis by blast
qed

theorem sdlID_name_fallback_witness:
  "\<not> (vendor noid \<noteq> 0 \<and> product noid \<noteq> 0 \<and> version noid \<noteq> 0) \<and>
   sdlID_of noid ''Joy'' = ''050000004a6f79000000000000000000'' \<and>
   sdlID_of noid ''Wireless Controller'' = ''05000000576972656c65737320436f6e'' \<and>
   length (sdlID_of noid ''Wireless Controller'') = 32 \<and>
   unhex (sdlID_of noid ''Joy'') = Some [0x05, 0, 0, 0, 0x4a, 0x6f, 0x79, 0, 0, 0, 0, 0, 0, 0, 0, 0]"
proof -
  have v: "\<not> (vendor noid \<noteq> 0 \<and> product noid \<noteq> 0 \<and> version noid \<noteq> 0)"
    by (simp add: noid_def)
  have e: "sdlID_of noid ''Joy'' = ''050000004a6f79000000000000000000''"
    "sdlID_of noid ''Wireless Controller'' = ''05000000576972656c65737320436f6e''"
    by code_simp+
  have f: "spec_le16 (bustype noid) = [0x05, 0]"
    "spec_name12 ''Joy'' = [0x4a, 0x6f, 0x79, 0, 0, 0, 0, 0, 0, 0, 0, 0]"
    by code_simp+
  show ?thesis
    using v e sdlID_name_fallback [OF v, of "''Joy''" noid]
      sdlID_name_fallback [OF v, of "''Wireless Controller''" noid]
    by (simp add: f)
qed

subsection \<open>The hats\<close>

lemma hat_has_bits:
  "hat_has h hatUp = bit h 0" "hat_has h hatRight = bit h 1"
  "hat_has h hatDown = bit h 2" "hat_has h hatLeft = bit h 3"
  using and_exp_eq_0_iff_not_bit [of h 0] and_exp_eq_0_iff_not_bit [of h 1]
    and_exp_eq_0_iff_not_bit [of h 2] and_exp_eq_0_iff_not_bit [of h 3]
  by (simp_all add: hat_has_def hat_consts)

lemma bit_consts:
  "bit (1::int) n \<longleftrightarrow> n = 0" "bit (2::int) n \<longleftrightarrow> n = 1"
  "bit (4::int) n \<longleftrightarrow> n = 2" "bit (8::int) n \<longleftrightarrow> n = 3"
  using bit_exp_iff [of 1 n, where ?'a = int] bit_exp_iff [of 2 n, where ?'a = int]
    bit_exp_iff [of 3 n, where ?'a = int] bit_exp_iff [of 0 n, where ?'a = int]
  by (auto simp: bit_1_iff)

lemma mod2_cases: "(x::int) mod 2 = 0 \<or> x mod 2 = 1"
  by presburger

lemma handleAbsEvent_None_iff:
  "handleAbsEvent rd g code v = None \<longleftrightarrow> \<not> abs_event_ok g code"
  using mod2_cases [of "code - ABS_HAT0X"]
  by (auto simp: handleAbsEvent_def abs_event_ok_def Let_def)

lemma handleAbsEvent_hat_X:
  assumes "ABS_HAT0X \<le> code" "code \<le> ABS_HAT3Y" "abs_event_ok g code"
    and "(code - ABS_HAT0X) mod 2 = 0"
  shows "\<exists>h'. handleAbsEvent rd g code v = Some (g\<lparr>hats := (hats g)(absMap g code := h')\<rparr>) \<and>
           (hat_has h' hatLeft \<longleftrightarrow> sint v < 0) \<and> (hat_has h' hatRight \<longleftrightarrow> 0 < sint v) \<and>
           (hat_has h' hatUp \<longleftrightarrow> hat_has (hats g (absMap g code)) hatUp) \<and>
           (hat_has h' hatDown \<longleftrightarrow> hat_has (hats g (absMap g code)) hatDown)"
proof -
  let ?h = "hats g (absMap g code)"
  have b: "\<And>h. hat_has ((h OR hatLeft) AND NOT hatRight) hatLeft"
    "\<And>h. \<not> hat_has ((h OR hatLeft) AND NOT hatRight) hatRight"
    "\<And>h. hat_has ((h AND NOT hatLeft) OR hatRight) hatRight"
    "\<And>h. \<not> hat_has ((h AND NOT hatLeft) OR hatRight) hatLeft"
    "\<And>h. \<not> hat_has (h AND NOT (hatLeft OR hatRight)) hatLeft"
    "\<And>h. \<not> hat_has (h AND NOT (hatLeft OR hatRight)) hatRight"
    "\<And>h. hat_has ((h OR hatLeft) AND NOT hatRight) hatUp = hat_has h hatUp"
    "\<And>h. hat_has ((h OR hatLeft) AND NOT hatRight) hatDown = hat_has h hatDown"
    "\<And>h. hat_has ((h AND NOT hatLeft) OR hatRight) hatUp = hat_has h hatUp"
    "\<And>h. hat_has ((h AND NOT hatLeft) OR hatRight) hatDown = hat_has h hatDown"
    "\<And>h. hat_has (h AND NOT (hatLeft OR hatRight)) hatUp = hat_has h hatUp"
    "\<And>h. hat_has (h AND NOT (hatLeft OR hatRight)) hatDown = hat_has h hatDown"
    unfolding hat_has_bits by (simp_all add: hat_consts bit_simps bit_consts)
  consider "sint v < 0" | "0 < sint v" | "sint v = 0" by linarith
  then show ?thesis
  proof cases
    case 1
    with assms have "handleAbsEvent rd g code v =
        Some (g\<lparr>hats := (hats g)(absMap g code := (?h OR hatLeft) AND NOT hatRight)\<rparr>)"
      by (simp add: handleAbsEvent_def abs_event_ok_def Let_def)
    with 1 show ?thesis using b by auto
  next
    case 2
    with assms have "handleAbsEvent rd g code v =
        Some (g\<lparr>hats := (hats g)(absMap g code := (?h AND NOT hatLeft) OR hatRight)\<rparr>)"
      by (simp add: handleAbsEvent_def abs_event_ok_def Let_def)
    with 2 show ?thesis using b by auto
  next
    case 3
    with assms have "handleAbsEvent rd g code v =
        Some (g\<lparr>hats := (hats g)(absMap g code := ?h AND NOT (hatLeft OR hatRight))\<rparr>)"
      by (simp add: handleAbsEvent_def abs_event_ok_def Let_def)
    with 3 show ?thesis using b by auto
  qed
qed

lemma handleAbsEvent_hat_Y:
  assumes "ABS_HAT0X \<le> code" "code \<le> ABS_HAT3Y" "abs_event_ok g code"
    and "(code - ABS_HAT0X) mod 2 = 1"
  shows "\<exists>h'. handleAbsEvent rd g code v = Some (g\<lparr>hats := (hats g)(absMap g code := h')\<rparr>) \<and>
           (hat_has h' hatUp \<longleftrightarrow> sint v < 0) \<and> (hat_has h' hatDown \<longleftrightarrow> 0 < sint v) \<and>
           (hat_has h' hatLeft \<longleftrightarrow> hat_has (hats g (absMap g code)) hatLeft) \<and>
           (hat_has h' hatRight \<longleftrightarrow> hat_has (hats g (absMap g code)) hatRight)"
proof -
  let ?h = "hats g (absMap g code)"
  have b: "\<And>h. hat_has ((h OR hatUp) AND NOT hatDown) hatUp"
    "\<And>h. \<not> hat_has ((h OR hatUp) AND NOT hatDown) hatDown"
    "\<And>h. hat_has ((h AND NOT hatUp) OR hatDown) hatDown"
    "\<And>h. \<not> hat_has ((h AND NOT hatUp) OR hatDown) hatUp"
    "\<And>h. \<not> hat_has (h AND NOT (hatUp OR hatDown)) hatUp"
    "\<And>h. \<not> hat_has (h AND NOT (hatUp OR hatDown)) hatDown"
    "\<And>h. hat_has ((h OR hatUp) AND NOT hatDown) hatLeft = hat_has h hatLeft"
    "\<And>h. hat_has ((h OR hatUp) AND NOT hatDown) hatRight = hat_has h hatRight"
    "\<And>h. hat_has ((h AND NOT hatUp) OR hatDown) hatLeft = hat_has h hatLeft"
    "\<And>h. hat_has ((h AND NOT hatUp) OR hatDown) hatRight = hat_has h hatRight"
    "\<And>h. hat_has (h AND NOT (hatUp OR hatDown)) hatLeft = hat_has h hatLeft"
    "\<And>h. hat_has (h AND NOT (hatUp OR hatDown)) hatRight = hat_has h hatRight"
    unfolding hat_has_bits by (simp_all add: hat_consts bit_simps bit_consts)
  consider "sint v < 0" | "0 < sint v" | "sint v = 0" by linarith
  then show ?thesis
  proof cases
    case 1
    with assms have "handleAbsEvent rd g code v =
        Some (g\<lparr>hats := (hats g)(absMap g code := (?h OR hatUp) AND NOT hatDown)\<rparr>)"
      by (simp add: handleAbsEvent_def abs_event_ok_def Let_def)
    with 1 show ?thesis using b by auto
  next
    case 2
    with assms have "handleAbsEvent rd g code v =
        Some (g\<lparr>hats := (hats g)(absMap g code := (?h AND NOT hatUp) OR hatDown)\<rparr>)"
      by (simp add: handleAbsEvent_def abs_event_ok_def Let_def)
    with 2 show ?thesis using b by auto
  next
    case 3
    with assms have "handleAbsEvent rd g code v =
        Some (g\<lparr>hats := (hats g)(absMap g code := ?h AND NOT (hatUp OR hatDown))\<rparr>)"
      by (simp add: handleAbsEvent_def abs_event_ok_def Let_def)
    with 3 show ?thesis using b by auto
  qed
qed

lemma handleAbsEvent_axis_hats:
  assumes "\<not> (ABS_HAT0X \<le> code \<and> code \<le> ABS_HAT3Y)" "handleAbsEvent rd g code v = Some g'"
  shows "hats g' = hats g"
  using assms by (auto simp: handleAbsEvent_def Let_def split: if_splits)

lemma handleAbsEvent_absMap:
  assumes "handleAbsEvent rd g code v = Some g'"
  shows "absMap g' = absMap g"
  using assms by (auto simp: handleAbsEvent_def Let_def split: if_splits)

lemma handleAbsEvent_exclusive:
  assumes inv: "hats_exclusive g" and ret: "handleAbsEvent rd g code v = Some g'"
  shows "hats_exclusive g'"
proof (cases "ABS_HAT0X \<le> code \<and> code \<le> ABS_HAT3Y")
  case False
  then show ?thesis
    using handleAbsEvent_axis_hats [OF _ ret] inv by (simp add: hats_exclusive_def)
next
  case hat: True
  have ok: "abs_event_ok g code"
    using ret handleAbsEvent_None_iff [of rd g code v] by auto
  then have i: "absMap g code \<in> {0..<4}"
    using hat by (simp add: abs_event_ok_def)
  then have old: "hat_exclusive (hats g (absMap g code))"
    using inv by (simp add: hats_exclusive_def)
  have "\<exists>h'. g' = g\<lparr>hats := (hats g)(absMap g code := h')\<rparr> \<and> hat_exclusive h'"
  proof (cases "(code - ABS_HAT0X) mod 2 = 0")
    case True
    from handleAbsEvent_hat_X [OF conjunct1 [OF hat] conjunct2 [OF hat] ok True, of rd v]
    obtain h' where h: "handleAbsEvent rd g code v = Some (g\<lparr>hats := (hats g)(absMap g code := h')\<rparr>)"
      "hat_has h' hatLeft \<longleftrightarrow> sint v < 0" "hat_has h' hatRight \<longleftrightarrow> 0 < sint v"
      "hat_has h' hatUp \<longleftrightarrow> hat_has (hats g (absMap g code)) hatUp"
      "hat_has h' hatDown \<longleftrightarrow> hat_has (hats g (absMap g code)) hatDown"
      by blast
    from h(2-5) old have "hat_exclusive h'"
      unfolding hat_exclusive_def by linarith
    moreover from h(1) ret have "g' = g\<lparr>hats := (hats g)(absMap g code := h')\<rparr>" by simp
    ultimately show ?thesis by blast
  next
    case False
    then have odd: "(code - ABS_HAT0X) mod 2 = 1" by presburger
    from handleAbsEvent_hat_Y [OF conjunct1 [OF hat] conjunct2 [OF hat] ok odd, of rd v]
    obtain h' where h: "handleAbsEvent rd g code v = Some (g\<lparr>hats := (hats g)(absMap g code := h')\<rparr>)"
      "hat_has h' hatUp \<longleftrightarrow> sint v < 0" "hat_has h' hatDown \<longleftrightarrow> 0 < sint v"
      "hat_has h' hatLeft \<longleftrightarrow> hat_has (hats g (absMap g code)) hatLeft"
      "hat_has h' hatRight \<longleftrightarrow> hat_has (hats g (absMap g code)) hatRight"
      by blast
    from h(2-5) old have "hat_exclusive h'"
      unfolding hat_exclusive_def by linarith
    moreover from h(1) ret have "g' = g\<lparr>hats := (hats g)(absMap g code := h')\<rparr>" by simp
    ultimately show ?thesis by blast
  qed
  then obtain h' where g': "g' = g\<lparr>hats := (hats g)(absMap g code := h')\<rparr>" and ex: "hat_exclusive h'"
    by blast
  show ?thesis
    unfolding hats_exclusive_def
  proof
    fix i :: int assume "i \<in> {0..<4}"
    then have "hat_exclusive (hats g i)" using inv by (simp add: hats_exclusive_def)
    with ex show "hat_exclusive (hats g' i)" by (simp add: g')
  qed
qed

lemma handleAbsEvents_exclusive:
  "hats_exclusive g \<Longrightarrow> handleAbsEvents rd g es = Some g' \<Longrightarrow> hats_exclusive g'"
proof (induction es arbitrary: g)
  case Nil
  then show ?case by simp
next
  case (Cons e es)
  from Cons.prems(2) obtain g1 where g1: "handleAbsEvent rd g (fst e) (snd e) = Some g1"
    and rest: "handleAbsEvents rd g1 es = Some g'"
    by (cases "handleAbsEvent rd g (fst e) (snd e)") simp_all
  from Cons.prems(1) g1 have "hats_exclusive g1" by (rule handleAbsEvent_exclusive)
  from Cons.IH [OF this rest] show ?case .
qed

lemma handleAbsEvents_returns:
  "\<forall>e\<in>set es. abs_event_ok g (fst e) \<Longrightarrow> \<exists>g'. handleAbsEvents rd g es = Some g'"
proof (induction es arbitrary: g)
  case Nil
  then show ?case by simp
next
  case (Cons e es)
  then have "abs_event_ok g (fst e)" by simp
  then obtain g1 where g1: "handleAbsEvent rd g (fst e) (snd e) = Some g1"
    using handleAbsEvent_None_iff [of rd g "fst e" "snd e"] by (cases "handleAbsEvent rd g (fst e) (snd e)") simp_all
  then have "absMap g1 = absMap g" by (rule handleAbsEvent_absMap)
  then have "\<forall>e\<in>set es. abs_event_ok g1 (fst e)"
    using Cons.prems by (simp add: abs_event_ok_def)
  from Cons.IH [OF this] g1 show ?case by simp
qed

text \<open>
  C7: from a state in which no hat has left and right or up and down set together, every
  sequence of events applied through \<open>handleAbsEvent\<close> leads to such a state again (and
  the sequence is handled without a panic when every code is mapped). One event on a
  directional-pad code changes the mask of its hat only: on an X code a negative value
  sets left and clears right, a positive value sets right and clears left, zero clears
  both, and up and down stay as they are; on a Y code the same holds with up and down,
  and left and right stay as they are.
\<close>

theorem hat_mask_exclusive:
  assumes "hats_exclusive g"
  shows "(\<forall>g'. handleAbsEvents rd g es = Some g' \<longrightarrow> hats_exclusive g') \<and>
         ((\<forall>e\<in>set es. abs_event_ok g (fst e)) \<longrightarrow> (\<exists>g'. handleAbsEvents rd g es = Some g')) \<and>
         (ABS_HAT0X \<le> code \<and> code \<le> ABS_HAT3Y \<and> abs_event_ok g code \<longrightarrow>
            (\<exists>h'. handleAbsEvent rd g code v = Some (g\<lparr>hats := (hats g)(absMap g code := h')\<rparr>) \<and>
               (if (code - ABS_HAT0X) mod 2 = 0
                then (hat_has h' hatLeft \<longleftrightarrow> sint v < 0) \<and> (hat_has h' hatRight \<longleftrightarrow> 0 < sint v) \<and>
                     (hat_has h' hatUp \<longleftrightarrow> hat_has (hats g (absMap g code)) hatUp) \<and>
                     (hat_has h' hatDown \<longleftrightarrow> hat_has (hats g (absMap g code)) hatDown)
                else (hat_has h' hatUp \<longleftrightarrow> sint v < 0) \<and> (hat_has h' hatDown \<longleftrightarrow> 0 < sint v) \<and>
                     (hat_has h' hatLeft \<longleftrightarrow> hat_has (hats g (absMap g code)) hatLeft) \<and>
                     (hat_has h' hatRight \<longleftrightarrow> hat_has (hats g (absMap g code)) hatRight))))"
proof (intro conjI allI impI)
  fix g' assume "handleAbsEvents rd g es = Some g'"
  with assms show "hats_exclusive g'" by (rule handleAbsEvents_exclusive)
next
  assume "\<forall>e\<in>set es. abs_event_ok g (fst e)"
  then show "\<exists>g'. handleAbsEvents rd g es = Some g'" by (rule handleAbsEvents_returns)
next
  assume c: "ABS_HAT0X \<le> code \<and> code \<le> ABS_HAT3Y \<and> abs_event_ok g code"
  show "\<exists>h'. handleAbsEvent rd g code v = Some (g\<lparr>hats := (hats g)(absMap g code := h')\<rparr>) \<and>
               (if (code - ABS_HAT0X) mod 2 = 0
                then (hat_has h' hatLeft \<longleftrightarrow> sint v < 0) \<and> (hat_has h' hatRight \<longleftrightarrow> 0 < sint v) \<and>
                     (hat_has h' hatUp \<longleftrightarrow> hat_has (hats g (absMap g code)) hatUp) \<and>
                     (hat_has h' hatDown \<longleftrightarrow> hat_has (hats g (absMap g code)) hatDown)
                else (hat_has h' hatUp \<longleftrightarrow> sint v < 0) \<and> (hat_has h' hatDown \<longleftrightarrow> 0 < sint v) \<and>
                     (hat_has h' hatLeft \<longleftrightarrow> hat_has (hats g (absMap g code)) hatLeft) \<and>
                     (hat_has h' hatRight \<longleftrightarrow> hat_has (hats g (absMap g code)) hatRight))"
  proof (cases "(code - ABS_HAT0X) mod 2 = 0")
    case True
    from c have c1: "ABS_HAT0X \<le> code" and c2: "code \<le> ABS_HAT3Y" and c3: "abs_event_ok g code"
      by simp_all
    from handleAbsEvent_hat_X [OF c1 c2 c3 True, of rd v] True
    show ?thesis by (simp only: simp_thms if_True)
  next
    case False
    from c have c1: "ABS_HAT0X \<le> code" and c2: "code \<le> ABS_HAT3Y" and c3: "abs_event_ok g code"
      by simp_all
    from False have odd: "(code - ABS_HAT0X) mod 2 = 1" by presburger
    from handleAbsEvent_hat_Y [OF c1 c2 c3 odd, of rd v] False
    show ?thesis by (simp only: simp_thms if_False)
  qed
qed

theorem hat_mask_exclusive_witness:
  "hats_exclusive hat_gamepad \<and>
   (\<exists>g'. handleAbsEvents id hat_gamepad hat_events = Some g' \<and> hats_exclusive g') \<and>
   (\<exists>h'. handleAbsEvent id hat_gamepad 0x10 (- 1) =
            Some (hat_gamepad\<lparr>hats := (hats hat_gamepad)(0 := h')\<rparr>) \<and>
          hat_has h' hatLeft \<and> \<not> hat_has h' hatRight)"
proof -
  have inv: "hats_exclusive hat_gamepad"
    by (simp add: hats_exclusive_def hat_exclusive_def hat_has_def hat_gamepad_def
        zero_nativeGamepad_def)
  have ok: "abs_event_ok hat_gamepad 0x10" "abs_event_ok hat_gamepad 0x11"
    by (simp_all add: abs_event_ok_def hat_gamepad_def zero_nativeGamepad_def input_consts)
  have am: "absMap hat_gamepad 0x10 = 0"
    by (simp add: hat_gamepad_def zero_nativeGamepad_def)
  have evs: "\<forall>e\<in>set hat_events. abs_event_ok hat_gamepad (fst e)"
    using ok by (simp add: hat_events_def)
  have par: "(0x10 - ABS_HAT0X) mod 2 = 0" "ABS_HAT0X \<le> 0x10" "0x10 \<le> ABS_HAT3Y"
    by (simp_all add: input_consts)
  have neg: "sint (- 1 :: int32) < 0" "\<not> 0 < sint (- 1 :: int32)" by simp_all
  from hat_mask_exclusive [OF inv, of id hat_events "0x10" "- 1"] evs ok(1) par neg am
  show ?thesis
    using inv by (simp only: simp_thms if_True) blast
qed

subsection \<open>The axes\<close>

lemma float64_exact_int:
  assumes "float64_exact rd" "\<bar>z\<bar> \<le> 2 ^ 53"
  shows "rd (real_of_int z) = real_of_int z"
  using assms by (simp add: float64_exact_def)

lemma float64_exact_consts:
  assumes "float64_exact rd"
  shows "rd 0 = 0" "rd 1 = 1" "rd 2 = 2" "rd (- 1) = - 1" "rd (1 / 2) = 1 / 2"
  using float64_exact_int [OF assms, of 0] float64_exact_int [OF assms, of 1]
    float64_exact_int [OF assms, of 2] float64_exact_int [OF assms, of "- 1"] assms
  by (simp_all add: float64_exact_def)

lemma sint32_diff:
  fixes a b :: int32
  shows "\<bar>sint a - sint b\<bar> \<le> 2 ^ 53"
proof -
  have "- (2 ^ 31) \<le> sint a" "sint a < 2 ^ 31" "- (2 ^ 31) \<le> sint b" "sint b < 2 ^ 31"
    using sint_greater_eq [of a] sint_less [of a] sint_greater_eq [of b] sint_less [of b]
    by simp_all
  then show ?thesis by simp
qed

lemma signed_real_eq_iff:
  fixes a b :: int32
  shows "(signed a :: real) = signed b \<longleftrightarrow> sint a = sint b"
proof -
  have "(signed a :: real) = real_of_int (sint a)" "(signed b :: real) = real_of_int (sint b)"
    by simp_all
  then show ?thesis by (simp only: of_int_eq_iff)
qed

lemma handleAbsEvent_axis_eq:
  assumes ok: "abs_event_ok g code" and nh: "\<not> (ABS_HAT0X \<le> code \<and> code \<le> ABS_HAT3Y)"
    and rd: "float64_exact rd"
  shows "handleAbsEvent rd g code v =
     Some (g\<lparr>axes := (axes g)(absMap g code :=
        (if sint (maximum (absInfo g code)) \<noteq> sint (minimum (absInfo g code))
         then rd (rd (rd (real_of_int (sint v - sint (minimum (absInfo g code))) /
                real_of_int (sint (maximum (absInfo g code)) - sint (minimum (absInfo g code)))) * 2) - 1)
         else real_of_int (sint v)))\<rparr>)"
proof -
  let ?lo = "sint (minimum (absInfo g code))" and ?hi = "sint (maximum (absInfo g code))"
  have r: "rd (real_of_int ?hi - real_of_int ?lo) = real_of_int (?hi - ?lo)"
    using float64_exact_int [OF rd sint32_diff, of "maximum (absInfo g code)" "minimum (absInfo g code)"]
    by simp
  have n: "rd (real_of_int (sint v) - real_of_int ?lo) = real_of_int (sint v - ?lo)"
    using float64_exact_int [OF rd sint32_diff, of v "minimum (absInfo g code)"]
    by simp
  from ok nh have idx: "0 \<le> code" "code < ABS_CNT" "0 \<le> absMap g code" "absMap g code < ABS_CNT"
    by (simp_all add: abs_event_ok_def)
  from nh have c: "(code \<ge> ABS_HAT0X \<and> code \<le> ABS_HAT3Y) = False" by simp
  show ?thesis
    unfolding handleAbsEvent_def Let_def r n c if_False using idx
    by (simp add: signed_real_eq_iff)
qed

text \<open>
  C1, as amended: an event on a mapped code outside the hat range, with a calibration
  whose minimum is below its maximum, sets the axis to the float64 value of
  \<open>(v - min) / (max - min) * 2 - 1\<close>, which is \<open>- 1\<close> at the minimum, \<open>1\<close> at the maximum,
  \<open>0\<close> halfway between them, and the linear map of the spec when the arithmetic is exact.
  With a calibration whose minimum equals its maximum the axis is set to the raw value
  of the event.
\<close>

theorem handleAbsEvent_axis_rescale:
  assumes ok: "abs_event_ok g code" and nh: "\<not> (ABS_HAT0X \<le> code \<and> code \<le> ABS_HAT3Y)"
    and rd: "float64_exact rd"
  shows "(sint (minimum (absInfo g code)) < sint (maximum (absInfo g code)) \<longrightarrow>
          (\<exists>a. handleAbsEvent rd g code v = Some (g\<lparr>axes := (axes g)(absMap g code := a)\<rparr>) \<and>
             a = rd (rd (rd (real_of_int (sint v - sint (minimum (absInfo g code))) /
                   real_of_int (sint (maximum (absInfo g code)) - sint (minimum (absInfo g code)))) * 2) - 1) \<and>
             (v = minimum (absInfo g code) \<longrightarrow> a = - 1) \<and>
             (v = maximum (absInfo g code) \<longrightarrow> a = 1) \<and>
             (2 * sint v = sint (minimum (absInfo g code)) + sint (maximum (absInfo g code))
                \<longrightarrow> a = 0) \<and>
             ((\<forall>y. rd y = y) \<longrightarrow>
                a = spec_rescale (real_of_int (sint (minimum (absInfo g code))))
                      (real_of_int (sint (maximum (absInfo g code)))) (real_of_int (sint v))))) \<and>
         (sint (minimum (absInfo g code)) = sint (maximum (absInfo g code)) \<longrightarrow>
          handleAbsEvent rd g code v =
            Some (g\<lparr>axes := (axes g)(absMap g code := real_of_int (sint v))\<rparr>))"
proof -
  let ?lo = "sint (minimum (absInfo g code))" and ?hi = "sint (maximum (absInfo g code))"
  let ?x = "sint v"
  let ?a = "rd (rd (rd (real_of_int (?x - ?lo) / real_of_int (?hi - ?lo)) * 2) - 1)"
  note e = handleAbsEvent_axis_eq [OF ok nh rd, of v]
  note k = float64_exact_consts [OF rd]
  have flat: "?lo = ?hi \<longrightarrow>
      handleAbsEvent rd g code v = Some (g\<lparr>axes := (axes g)(absMap g code := real_of_int ?x)\<rparr>)"
    using e by simp
  have resc: "?lo < ?hi \<longrightarrow>
      handleAbsEvent rd g code v = Some (g\<lparr>axes := (axes g)(absMap g code := ?a)\<rparr>)"
    using e by simp
  have lo: "?lo < ?hi \<longrightarrow> v = minimum (absInfo g code) \<longrightarrow> ?a = - 1"
    using k by simp
  have hi: "?lo < ?hi \<longrightarrow> v = maximum (absInfo g code) \<longrightarrow> ?a = 1"
  proof (intro impI)
    assume lt: "?lo < ?hi" and m: "v = maximum (absInfo g code)"
    then have h: "real_of_int (?x - ?lo) / real_of_int (?hi - ?lo) = 1"
      by (simp add: signed_real_eq_iff)
    have "?a = rd (rd (rd 1 * 2) - 1)" by (simp only: h)
    also have "\<dots> = 1" using k by simp
    finally show "?a = 1" .
  qed
  have mid: "?lo < ?hi \<longrightarrow> 2 * ?x = ?lo + ?hi \<longrightarrow> ?a = 0"
  proof (intro impI)
    assume lt: "?lo < ?hi" and m: "2 * ?x = ?lo + ?hi"
    have d: "?hi - ?lo = 2 * (?x - ?lo)" using m by arith
    have nz: "?x - ?lo \<noteq> 0" using lt m by linarith
    have h: "real_of_int (?x - ?lo) / real_of_int (?hi - ?lo) = 1 / 2"
      unfolding d using nz by (simp add: signed_real_eq_iff)
    have "?a = rd (rd (rd (1 / 2) * 2) - 1)" by (simp only: h)
    also have "\<dots> = 0" using k by simp
    finally show "?a = 0" .
  qed
  have exact: "?lo < ?hi \<longrightarrow> (\<forall>y. rd y = y) \<longrightarrow>
      ?a = spec_rescale (real_of_int ?lo) (real_of_int ?hi) (real_of_int ?x)"
    by (simp add: spec_rescale_def)
  from flat resc lo hi mid exact show ?thesis by blast
qed

text \<open>
  C1 as stated fails: with minimum = maximum = 5 the axis, 0 before the event, is 7 after
  an event of value 7; it is not left at its previous value.
\<close>

theorem degenerate_calibration_counterexample:
  "sint (minimum (absInfo flat_gamepad 0)) = sint (maximum (absInfo flat_gamepad 0)) \<and>
   axes flat_gamepad 0 = 0 \<and>
   handleAbsEvent id flat_gamepad 0 7 = Some (flat_gamepad\<lparr>axes := (axes flat_gamepad)(0 := 7)\<rparr>) \<and>
   axisValue flat_gamepad 0 = Some 0 \<and>
   axisValue (flat_gamepad\<lparr>axes := (axes flat_gamepad)(0 := 7)\<rparr>) 0 = Some 7"
  by (simp add: handleAbsEvent_def flat_gamepad_def zero_nativeGamepad_def axisValue_def
      input_consts Let_def)

theorem handleAbsEvent_axis_rescale_witness:
  "abs_event_ok stick_gamepad 0 \<and> float64_exact id \<and>
   handleAbsEvent id stick_gamepad 0 (- 100) =
     Some (stick_gamepad\<lparr>axes := (axes stick_gamepad)(0 := - 1)\<rparr>) \<and>
   handleAbsEvent id stick_gamepad 0 100 =
     Some (stick_gamepad\<lparr>axes := (axes stick_gamepad)(0 := 1)\<rparr>) \<and>
   handleAbsEvent id stick_gamepad 0 0 =
     Some (stick_gamepad\<lparr>axes := (axes stick_gamepad)(0 := 0)\<rparr>) \<and>
   handleAbsEvent id flat_gamepad 0 7 =
     Some (flat_gamepad\<lparr>axes := (axes flat_gamepad)(0 := 7)\<rparr>)"
proof -
  have ok: "abs_event_ok stick_gamepad 0" "abs_event_ok flat_gamepad 0"
    by (simp_all add: abs_event_ok_def stick_gamepad_def flat_gamepad_def zero_nativeGamepad_def
        input_consts)
  have nh: "\<not> (ABS_HAT0X \<le> 0 \<and> 0 \<le> ABS_HAT3Y)" by (simp add: input_consts)
  have rd: "float64_exact id" by (simp add: float64_exact_def)
  have c: "absMap stick_gamepad 0 = 0" "absMap flat_gamepad 0 = 0"
    "minimum (absInfo stick_gamepad 0) = - 100" "maximum (absInfo stick_gamepad 0) = 100"
    "minimum (absInfo flat_gamepad 0) = 5" "maximum (absInfo flat_gamepad 0) = 5"
    by (simp_all add: stick_gamepad_def flat_gamepad_def zero_nativeGamepad_def)
  have s: "sint (- 100 :: int32) = - 100" "sint (100 :: int32) = 100" "sint (50 :: int32) = 50"
    "sint (7 :: int32) = 7" "sint (5 :: int32) = 5"
    by simp_all
  show ?thesis
    using ok(1) rd
      handleAbsEvent_axis_rescale [OF ok(1) nh rd, of "- 100"]
      handleAbsEvent_axis_rescale [OF ok(1) nh rd, of 100]
      handleAbsEvent_axis_rescale [OF ok(1) nh rd, of 0]
      handleAbsEvent_axis_rescale [OF ok(2) nh rd, of 7]
    by (simp add: c s spec_rescale_def)
qed

subsection \<open>The dropped flag\<close>

lemma dropped_update_id: "dropped g \<Longrightarrow> g\<lparr>dropped := True\<rparr> = g"
  by (cases g) simp

lemma update_event_dropped:
  assumes "dropped g" "\<not> is_report e"
  shows "update_event k rd g e n = Some (g, n)"
  using assms by (simp add: update_event_def is_report_def dropped_update_id)

lemma update_event_overflow:
  assumes "is_overflow e"
  shows "update_event k rd g e n = Some (g\<lparr>dropped := True\<rparr>, n)"
  using assms by (simp add: update_event_def is_overflow_def)

lemma update_event_report:
  assumes "is_report e"
  shows "update_event k rd g e n =
     (case pollAbsState k rd (g\<lparr>dropped := False\<rparr>) n of
        None \<Rightarrow> None
      | Some (err, g', n') \<Rightarrow> Some (g', n'))"
  using assms
  by (simp add: update_event_def is_report_def input_consts split: option.splits)

lemma update_loop_dropped:
  assumes "dropped g" "no_report rs"
  shows "\<exists>err g' cl. update_loop k rd rs g n = Some (err, g', n, cl) \<and>
           buttons g' = buttons g \<and> axes g' = axes g \<and> hats g' = hats g \<and>
           dropped g' \<and> keyMap g' = keyMap g \<and> absMap g' = absMap g"
  using assms
proof (induction rs)
  case Nil
  then show ?case by simp
next
  case (Cons r rs)
  show ?case
  proof (cases r)
    case (ReadOk bytes)
    with Cons.prems have nr: "\<not> is_report (decode_event (filled 24 bytes))" and rest: "no_report rs"
      by simp_all
    from update_event_dropped [OF Cons.prems(1) nr, of k rd n] Cons.IH [OF Cons.prems(1) rest] ReadOk
    show ?thesis by simp
  next
    case (ReadErr e)
    with Cons.prems(1) show ?thesis by (simp add: close_def)
  qed
qed

subsection \<open>The loops of openGamepad return\<close>

text \<open>
  With buffers of the sizes that \<open>openGamepad\<close> makes, no index of the three loops is
  out of range: each loop returns, and the gamepad it returns satisfies the invariants.
\<close>

lemma length_filled: "length (filled n r) = n"
  by (simp add: filled_def)

lemma isBitSet_in_range:
  assumes "0 \<le> b" "b < 8 * int (length s)"
  shows "\<exists>x. isBitSet s b = Some x"
  using assms by (simp add: isBitSet_def)

lemma keyMap_loop_total:
  assumes "length keyBits = 96" "BTN_MISC \<le> code" "code \<le> KEY_CNT"
  shows "\<exists>km bc'. keyMap_loop keyBits code g bc = Some (g\<lparr>keyMap := km\<rparr>, bc') \<and>
           bc \<le> bc' \<and> bc' \<le> bc + (KEY_CNT - code)"
  using assms
proof (induction keyBits code g bc rule: keyMap_loop.induct)
  case (1 keyBits code g bc)
  show ?case
  proof (cases "code < KEY_CNT")
    case False
    with "1.prems" have "keyMap_loop keyBits code g bc = Some (g\<lparr>keyMap := keyMap g\<rparr>, bc)"
      by (subst keyMap_loop.simps) simp
    moreover from False "1.prems" have "bc \<le> bc + (KEY_CNT - code)" by simp
    ultimately show ?thesis
      by (intro exI [of _ "keyMap g"] exI [of _ bc]) simp
  next
    case True
    with "1.prems" obtain x where x: "isBitSet keyBits code = Some x"
      using isBitSet_in_range [of code keyBits] by (auto simp: input_consts)
    from True "1.prems" have r: "0 \<le> code - BTN_MISC \<and> code - BTN_MISC < KEY_CNT - BTN_MISC"
      by simp
    from True "1.prems" have nx: "BTN_MISC \<le> code + 1" "code + 1 \<le> KEY_CNT" by simp_all
    show ?thesis
    proof (cases x)
      case False
      have "\<exists>km bc'. keyMap_loop keyBits (code + 1) g bc = Some (g\<lparr>keyMap := km\<rparr>, bc') \<and>
          bc \<le> bc' \<and> bc' \<le> bc + (KEY_CNT - (code + 1))"
        by (rule "1.IH"(2)) (use True x False "1.prems"(1) nx in simp_all)
      then obtain km bc' where "keyMap_loop keyBits (code + 1) g bc = Some (g\<lparr>keyMap := km\<rparr>, bc')"
        "bc \<le> bc'" "bc' \<le> bc + (KEY_CNT - (code + 1))" by blast
      moreover have "keyMap_loop keyBits code g bc = keyMap_loop keyBits (code + 1) g bc"
        using True x False by (subst keyMap_loop.simps) simp
      ultimately show ?thesis by force
    next
      case xt: True
      let ?g = "g\<lparr>keyMap := (keyMap g)(code - BTN_MISC := bc)\<rparr>"
      have "\<exists>km bc'. keyMap_loop keyBits (code + 1) ?g (bc + 1) = Some (?g\<lparr>keyMap := km\<rparr>, bc') \<and>
          bc + 1 \<le> bc' \<and> bc' \<le> bc + 1 + (KEY_CNT - (code + 1))"
        by (rule "1.IH"(1)) (use True x xt r "1.prems"(1) nx in simp_all)
      then obtain km bc' where k: "keyMap_loop keyBits (code + 1)
            (g\<lparr>keyMap := (keyMap g)(code - BTN_MISC := bc)\<rparr>) (bc + 1) =
          Some (g\<lparr>keyMap := (keyMap g)(code - BTN_MISC := bc)\<rparr>\<lparr>keyMap := km\<rparr>, bc')"
        "bc + 1 \<le> bc'" "bc' \<le> bc + 1 + (KEY_CNT - (code + 1))" by blast
      moreover have "keyMap_loop keyBits code g bc =
          keyMap_loop keyBits (code + 1) (g\<lparr>keyMap := (keyMap g)(code - BTN_MISC := bc)\<rparr>) (bc + 1)"
        using True x xt r by (subst keyMap_loop.simps) simp
      ultimately have "keyMap_loop keyBits code g bc = Some (g\<lparr>keyMap := km\<rparr>, bc')"
        "bc \<le> bc'" "bc' \<le> bc + (KEY_CNT - code)" by simp_all
      then show ?thesis by blast
    qed
  qed
qed

lemma same_but_abs_refl: "same_but_abs g g"
  by (simp add: same_but_abs_def)

lemma same_but_abs_trans: "same_but_abs g g1 \<Longrightarrow> same_but_abs g1 g2 \<Longrightarrow> same_but_abs g g2"
  unfolding same_but_abs_def by (cases g, cases g1, cases g2) simp

lemma same_but_abs_absMap: "same_but_abs g (g\<lparr>absMap := m\<rparr>)"
  by (simp add: same_but_abs_def)

lemma same_but_abs_both: "same_but_abs g (g\<lparr>absInfo := i, absMap := m\<rparr>)"
  by (cases g) (simp add: same_but_abs_def)

lemma absMap_ok_upd:
  assumes "absMap_ok g" "v < (if ABS_HAT0X \<le> c \<and> c \<le> ABS_HAT3Y then 4 else ABS_CNT)"
  shows "absMap_ok (g\<lparr>absMap := (absMap g)(c := v)\<rparr>)"
  using assms unfolding absMap_ok_def by (auto split: if_splits)

lemma absMap_ok_absInfo: "absMap_ok (g\<lparr>absInfo := i\<rparr>) = absMap_ok g"
  by (simp add: absMap_ok_def)

lemma inv_skip:
  assumes "abs_loop_inv code g ac hc" "code < ABS_CNT"
  shows "abs_loop_inv (code + 1) (g\<lparr>absMap := (absMap g)(code := - 1)\<rparr>) ac hc"
proof -
  from assms have "absMap_ok (g\<lparr>absMap := (absMap g)(code := - 1)\<rparr>)"
    by (intro absMap_ok_upd) (simp_all add: abs_loop_inv_def input_consts)
  with assms show ?thesis
    unfolding abs_loop_inv_def by (auto simp: input_consts max_def split: if_splits)
qed

lemma inv_hat:
  assumes "abs_loop_inv code g ac hc" "code < ABS_CNT" "ABS_HAT0X \<le> code \<and> code \<le> ABS_HAT3Y"
  shows "abs_loop_inv (code + 2) (g\<lparr>absMap := (absMap g)(code := hc)\<rparr>) ac (hc + 1)"
proof -
  from assms have h: "2 * hc \<le> code - ABS_HAT0X" "hc < 4"
    by (auto simp: abs_loop_inv_def input_consts max_def)
  with assms have "absMap_ok (g\<lparr>absMap := (absMap g)(code := hc)\<rparr>)"
    by (intro absMap_ok_upd) (simp_all add: abs_loop_inv_def)
  with assms h show ?thesis
    unfolding abs_loop_inv_def by (auto simp: input_consts max_def split: if_splits)
qed

lemma inv_axis:
  assumes "abs_loop_inv code g ac hc" "code < ABS_CNT" "\<not> (ABS_HAT0X \<le> code \<and> code \<le> ABS_HAT3Y)"
  shows "abs_loop_inv (code + 1) (g\<lparr>absInfo := i, absMap := (absMap g)(code := ac)\<rparr>) (ac + 1) hc"
proof -
  from assms have "ac < ABS_CNT" by (simp add: abs_loop_inv_def)
  with assms have "absMap_ok (g\<lparr>absMap := (absMap g)(code := ac)\<rparr>)"
    by (intro absMap_ok_upd) (auto simp: abs_loop_inv_def)
  then have "absMap_ok (g\<lparr>absInfo := i, absMap := (absMap g)(code := ac)\<rparr>)"
    by (simp add: absMap_ok_def)
  with assms show ?thesis
    unfolding abs_loop_inv_def by (auto simp: input_consts max_def split: if_splits)
qed

lemma absMap_loop_total:
  assumes "length absBits = 8" "abs_loop_inv code g ac hc"
  shows "\<exists>err g' ac' hc' n'. absMap_loop k absBits code g ac hc n = Some (err, g', ac', hc', n') \<and>
           abs_loop_post g g' ac' hc'"
  using assms
proof (induction k absBits code g ac hc n rule: absMap_loop.induct)
  case (1 k absBits code g ac hc n)
  note inv = "1.prems"(2)
  let ?g1 = "g\<lparr>absMap := (absMap g)(code := - 1)\<rparr>"
  show ?case
  proof (cases "code < ABS_CNT")
    case False
    have "absMap_loop k absBits code g ac hc n = Some (None, g, ac, hc, n)"
      using False by (subst absMap_loop.simps) (simp del: absMap_loop.simps)
    moreover have "abs_loop_post g g ac hc"
      using inv False by (simp add: abs_loop_post_def abs_loop_inv_def same_but_abs_refl)
    ultimately show ?thesis by blast
  next
    case lt: True
    from inv have c0: "0 \<le> code" by (simp add: abs_loop_inv_def)
    with lt "1.prems"(1) obtain x where x: "isBitSet absBits code = Some x"
      using isBitSet_in_range [of code absBits] by (auto simp: input_consts)
    have g1: "same_but_abs g ?g1" by (rule same_but_abs_absMap)
    show ?thesis
    proof (cases x)
      case False
      with x have xF: "isBitSet absBits code = Some False" by simp
      have "\<exists>err g' ac' hc' n'. absMap_loop k absBits (code + 1) ?g1 ac hc n =
            Some (err, g', ac', hc', n') \<and> abs_loop_post ?g1 g' ac' hc'"
        by (rule "1.IH"(3)) (use lt c0 x False "1.prems"(1) inv_skip [OF inv lt] in simp_all)
      then obtain err g' ac' hc' n' where
        r: "absMap_loop k absBits (code + 1) ?g1 ac hc n = Some (err, g', ac', hc', n')"
        and p: "abs_loop_post ?g1 g' ac' hc'" by blast
      have "absMap_loop k absBits code g ac hc n = absMap_loop k absBits (code + 1) ?g1 ac hc n"
        using lt c0 xF by (subst absMap_loop.simps) (simp add: Let_def del: absMap_loop.simps)
      moreover from p g1 have "abs_loop_post g g' ac' hc'"
        unfolding abs_loop_post_def using same_but_abs_trans by blast
      ultimately show ?thesis using r by simp
    next
      case xt: True
      with x have xT: "isBitSet absBits code = Some True" by simp
      show ?thesis
      proof (cases "ABS_HAT0X \<le> code \<and> code \<le> ABS_HAT3Y")
        case hat: True
        then have cT: "(code \<ge> ABS_HAT0X \<and> code \<le> ABS_HAT3Y) = True" by simp
        let ?g2 = "?g1\<lparr>absMap := (absMap ?g1)(code := hc)\<rparr>"
        have e: "?g2 = g\<lparr>absMap := (absMap g)(code := hc)\<rparr>" by simp
        have i2: "abs_loop_inv (code + 2) ?g2 ac (hc + 1)"
          unfolding e by (rule inv_hat [OF inv lt hat])
        have "\<exists>err g' ac' hc' n'. absMap_loop k absBits (code + 2) ?g2 ac (hc + 1) n =
              Some (err, g', ac', hc', n') \<and> abs_loop_post ?g2 g' ac' hc'"
          by (rule "1.IH"(1)) (use lt c0 x xt hat "1.prems"(1) i2 in simp_all)
        then obtain err g' ac' hc' n' where
          r: "absMap_loop k absBits (code + 2) ?g2 ac (hc + 1) n = Some (err, g', ac', hc', n')"
          and p: "abs_loop_post ?g2 g' ac' hc'" by blast
        have "absMap_loop k absBits code g ac hc n =
            absMap_loop k absBits (code + 2) ?g2 ac (hc + 1) n"
          using lt c0 by (subst absMap_loop.simps) (simp add: Let_def xT cT del: absMap_loop.simps)
        moreover have "same_but_abs g ?g2" unfolding e by (rule same_but_abs_absMap)
        with p have "abs_loop_post g g' ac' hc'"
          unfolding abs_loop_post_def using same_but_abs_trans by blast
        ultimately show ?thesis using r by simp
      next
        case nohat: False
        then have cF: "(code \<ge> ABS_HAT0X \<and> code \<le> ABS_HAT3Y) = False" by simp
        show ?thesis
        proof (cases "k n code")
          case (Inl er)
          have "absMap_loop k absBits code g ac hc n = Some (Some er, ?g1, ac, hc, Suc n)"
            using lt c0 by (subst absMap_loop.simps) (simp add: Let_def xT cF Inl del: absMap_loop.simps)
          moreover have "abs_loop_post g ?g1 ac hc"
            using inv_skip [OF inv lt] inv lt g1
            by (simp add: abs_loop_post_def abs_loop_inv_def)
          ultimately show ?thesis by blast
        next
          case (Inr info)
          let ?g2 = "?g1\<lparr>absInfo := (absInfo ?g1)(code := info),
              absMap := (absMap ?g1)(code := ac)\<rparr>"
          have e: "?g2 = g\<lparr>absInfo := (absInfo g)(code := info), absMap := (absMap g)(code := ac)\<rparr>"
            by (cases g) simp
          have i2: "abs_loop_inv (code + 1) ?g2 (ac + 1) hc"
            unfolding e by (rule inv_axis [OF inv lt nohat])
          have "\<exists>err g' ac' hc' n'. absMap_loop k absBits (code + 1) ?g2 (ac + 1) hc (Suc n) =
                Some (err, g', ac', hc', n') \<and> abs_loop_post ?g2 g' ac' hc'"
            by (rule "1.IH"(2)) (use lt c0 x xt nohat Inr "1.prems"(1) i2 in simp_all)
          then obtain err g' ac' hc' n' where
            r: "absMap_loop k absBits (code + 1) ?g2 (ac + 1) hc (Suc n) =
                Some (err, g', ac', hc', n')"
            and p: "abs_loop_post ?g2 g' ac' hc'" by blast
          have "absMap_loop k absBits code g ac hc n =
              absMap_loop k absBits (code + 1) ?g2 (ac + 1) hc (Suc n)"
            using lt c0 by (subst absMap_loop.simps) (simp add: Let_def xT cF Inr del: absMap_loop.simps)
          moreover have "same_but_abs g ?g2" unfolding e by (rule same_but_abs_both)
          with p have "abs_loop_post g g' ac' hc'"
            unfolding abs_loop_post_def using same_but_abs_trans by blast
          ultimately show ?thesis using r by simp
        qed
      qed
    qed
  qed
qed

lemma same_but_state_refl: "same_but_state g g"
  by (simp add: same_but_state_def)

lemma same_but_state_trans:
  "same_but_state g g1 \<Longrightarrow> same_but_state g1 g2 \<Longrightarrow> same_but_state g g2"
  unfolding same_but_state_def by (cases g, cases g1, cases g2) simp

lemma same_but_state_absInfo: "same_but_state g (g\<lparr>absInfo := i\<rparr>)"
  by (cases g) (simp add: same_but_state_def)

lemma handleAbsEvent_same:
  assumes "handleAbsEvent rd g code v = Some g'"
  shows "same_but_state g g'"
proof -
  from assms have "(\<exists>h. g' = g\<lparr>hats := h\<rparr>) \<or> (\<exists>a. g' = g\<lparr>axes := a\<rparr>) \<or> g' = g"
    unfolding handleAbsEvent_def Let_def by (simp split: if_splits) blast+
  then show ?thesis
    by (cases g) (auto simp: same_but_state_def)
qed

lemma same_but_state_absMap: "same_but_state g g' \<Longrightarrow> absMap g' = absMap g"
  unfolding same_but_state_def by (cases g, cases g') simp

lemma absMap_ok_same: "same_but_state g g' \<Longrightarrow> absMap_ok g \<Longrightarrow> absMap_ok g'"
  using same_but_state_absMap [of g g'] by (simp add: absMap_ok_def)

lemma absMap_ok_event:
  assumes "absMap_ok g" "0 \<le> code" "code < ABS_CNT" "\<not> absMap g code < 0"
  shows "abs_event_ok g code"
  using assms unfolding absMap_ok_def abs_event_ok_def by auto

lemma pollAbsState_loop_total:
  assumes "absMap_ok g" "0 \<le> code"
  shows "\<exists>err g' n'. pollAbsState_loop k rd code g n = Some (err, g', n') \<and> same_but_state g g'"
  using assms
proof (induction k rd code g n rule: pollAbsState_loop.induct)
  case (1 k rd code g n)
  note ok = "1.prems"(1) and c0 = "1.prems"(2)
  show ?case
  proof (cases "code < ABS_CNT")
    case False
    then have "pollAbsState_loop k rd code g n = Some (None, g, n)"
      by (subst pollAbsState_loop.simps) (simp del: pollAbsState_loop.simps)
    then show ?thesis using same_but_state_refl by blast
  next
    case lt: True
    show ?thesis
    proof (cases "absMap g code < 0")
      case neg: True
      have "\<exists>err g' n'. pollAbsState_loop k rd (code + 1) g n = Some (err, g', n') \<and>
          same_but_state g g'"
        by (rule "1.IH"(1)) (use lt c0 neg ok in simp_all)
      moreover have "pollAbsState_loop k rd code g n = pollAbsState_loop k rd (code + 1) g n"
        using lt c0 neg by (subst pollAbsState_loop.simps) (simp del: pollAbsState_loop.simps)
      ultimately show ?thesis by simp
    next
      case pos: False
      show ?thesis
      proof (cases "k n code")
        case (Inl er)
        have "pollAbsState_loop k rd code g n = Some (Some (AbsAtPollFailed er), g, Suc n)"
          using lt c0 pos
          by (subst pollAbsState_loop.simps) (simp add: Inl del: pollAbsState_loop.simps)
        then show ?thesis using same_but_state_refl by blast
      next
        case (Inr info)
        let ?g1 = "g\<lparr>absInfo := (absInfo g)(code := info)\<rparr>"
        have s1: "same_but_state g ?g1" by (rule same_but_state_absInfo)
        then have ok1: "absMap_ok ?g1" using ok by (rule absMap_ok_same)
        have "\<not> absMap ?g1 code < 0" using pos by simp
        from absMap_ok_event [OF ok1 c0 lt this]
        obtain g2 where g2: "handleAbsEvent rd ?g1 code (val (absInfo ?g1 code)) = Some g2"
          using handleAbsEvent_None_iff [of rd ?g1 code "val (absInfo ?g1 code)"]
          by (cases "handleAbsEvent rd ?g1 code (val (absInfo ?g1 code))") simp_all
        then have s2: "same_but_state ?g1 g2" by (rule handleAbsEvent_same)
        then have ok2: "absMap_ok g2" using ok1 by (rule absMap_ok_same)
        have "\<exists>err g' n'. pollAbsState_loop k rd (code + 1) g2 (Suc n) = Some (err, g', n') \<and>
            same_but_state g2 g'"
          by (rule "1.IH"(2) [where x = ?g1]) (use lt c0 pos Inr g2 ok2 in simp_all)
        then obtain err g' n' where
          r: "pollAbsState_loop k rd (code + 1) g2 (Suc n) = Some (err, g', n')"
          and s3: "same_but_state g2 g'" by blast
        have "pollAbsState_loop k rd code g n = pollAbsState_loop k rd (code + 1) g2 (Suc n)"
          using lt c0 pos g2
          by (subst pollAbsState_loop.simps) (simp add: Inr Let_def del: pollAbsState_loop.simps)
        moreover have "same_but_state g g'"
          using s1 s2 s3 same_but_state_trans by blast
        ultimately show ?thesis using r by simp
      qed
    qed
  qed
qed

lemma keyMap_loop_start:
  assumes "length keyBits = 96"
  shows "\<exists>km bc. keyMap_loop keyBits BTN_MISC g 0 = Some (g\<lparr>keyMap := km\<rparr>, bc) \<and>
           0 \<le> bc \<and> bc \<le> KEY_CNT - BTN_MISC"
proof -
  have "BTN_MISC \<le> KEY_CNT" by (simp add: input_consts)
  from keyMap_loop_total [OF assms order_refl this, of g 0] show ?thesis
    by (simp del: keyMap_loop.simps)
qed

lemma counts_ok_same: "same_but_state g g' \<Longrightarrow> counts_ok g' = counts_ok g"
  unfolding same_but_state_def by (cases g, cases g') (simp add: counts_ok_def)

lemma same_but_abs_fields:
  assumes "same_but_abs g g'"
  shows "path g' = path g" "fd g' = fd g" "axisCount' g' = axisCount' g"
    "buttonCount' g' = buttonCount' g" "hatCount' g' = hatCount' g"
proof -
  from assms have e: "g' = g\<lparr>absMap := absMap g', absInfo := absInfo g'\<rparr>"
    by (simp add: same_but_abs_def)
  show "path g' = path g" by (subst e) simp
  show "fd g' = fd g" by (subst e) simp
  show "axisCount' g' = axisCount' g" by (subst e) simp
  show "buttonCount' g' = buttonCount' g" by (subst e) simp
  show "hatCount' g' = hatCount' g" by (subst e) simp
qed

lemma same_but_state_fields:
  assumes "same_but_state g g'"
  shows "path g' = path g" "fd g' = fd g"
proof -
  from assms have e: "g' = g\<lparr>absInfo := absInfo g', axes := axes g', hats := hats g'\<rparr>"
    by (simp add: same_but_state_def)
  show "path g' = path g" by (subst e) simp
  show "fd g' = fd g" by (subst e) simp
qed

lemma absMap_loop_start:
  assumes "length absBits = 8"
  shows "\<exists>e g' ac hc n. absMap_loop k absBits 0 (zero_nativeGamepad\<lparr>path := p, fd := f, keyMap := km\<rparr>) 0 0 0 =
             Some (e, g', ac, hc, n) \<and>
           abs_loop_post (zero_nativeGamepad\<lparr>path := p, fd := f, keyMap := km\<rparr>) g' ac hc"
proof -
  let ?g1 = "zero_nativeGamepad\<lparr>path := p, fd := f, keyMap := km\<rparr>"
  have "absMap_ok ?g1" by (simp add: absMap_ok_def zero_nativeGamepad_def input_consts)
  then have "abs_loop_inv 0 ?g1 0 0" by (simp add: abs_loop_inv_def input_consts)
  from absMap_loop_total [OF assms this, of k 0] show ?thesis .
qed

lemma pollAbsState_total:
  assumes "absMap_ok g"
  shows "\<exists>err g' n'. pollAbsState k rd g n = Some (err, g', n') \<and> same_but_state g g'"
  unfolding pollAbsState_def by (rule pollAbsState_loop_total [OF assms order_refl])

lemma openGamepad_add_total:
  assumes "length keyBits = 96" "length absBits = 8"
  shows "\<exists>err g cl. openGamepad_add rd k gamepads nm sdl p f keyBits absBits =
             Some (err, gamepads_add gamepads nm sdl g, cl) \<and>
           path g = p \<and> fd g = f \<and> counts_ok g \<and> absMap_ok g \<and>
           cl = (if err = None then [] else [SysClose f])"
proof -
  let ?g0 = "zero_nativeGamepad\<lparr>path := p, fd := f\<rparr>"
  from keyMap_loop_start [OF assms(1), where g = ?g0]
  obtain km bc where k1: "keyMap_loop keyBits BTN_MISC ?g0 0 = Some (?g0\<lparr>keyMap := km\<rparr>, bc)"
    and bc: "0 \<le> bc" "bc \<le> KEY_CNT - BTN_MISC"
    by blast
  let ?g1 = "?g0\<lparr>keyMap := km\<rparr>"
  from absMap_loop_start [OF assms(2), where k = k and p = p and f = f and km = km]
  obtain e2 g2 ac hc n where k2: "absMap_loop k absBits 0 ?g1 0 0 0 = Some (e2, g2, ac, hc, n)"
    and post: "abs_loop_post ?g1 g2 ac hc" by blast
  from post have ok2: "absMap_ok g2" and cnt: "0 \<le> ac" "ac \<le> ABS_CNT" "0 \<le> hc" "hc \<le> 4"
    and s2: "same_but_abs ?g1 g2"
    by (simp_all add: abs_loop_post_def)
  have f2: "path g2 = p" "fd g2 = f" "axisCount' g2 = 0" "buttonCount' g2 = 0"
    "hatCount' g2 = 0"
    using same_but_abs_fields [OF s2] by (simp_all add: zero_nativeGamepad_def)
  show ?thesis
  proof (cases e2)
    case (Some e)
    have "openGamepad_add rd k gamepads nm sdl p f keyBits absBits =
        Some (Some (AbsAtOpenFailed e), gamepads_add gamepads nm sdl g2, [SysClose f])"
      unfolding openGamepad_add_def Let_def
      by (simp only: k1 k2 Some option.case prod.case)
    moreover have "counts_ok g2" using f2 by (simp add: counts_ok_def input_consts)
    ultimately show ?thesis using f2 ok2
      by (intro exI [of _ "Some (AbsAtOpenFailed e)"] exI [of _ g2] exI [of _ "[SysClose f]"]) simp
  next
    case None
    let ?g3 = "g2\<lparr>axisCount' := ac, buttonCount' := bc, hatCount' := hc\<rparr>"
    have ok3: "absMap_ok ?g3" using ok2 by (simp add: absMap_ok_def)
    have c3: "counts_ok ?g3" using cnt bc by (simp add: counts_ok_def)
    from pollAbsState_total [OF ok3, where k = k and rd = rd and n = n]
    obtain e4 g4 n' where k4: "pollAbsState k rd ?g3 n = Some (e4, g4, n')"
      and s4: "same_but_state ?g3 g4"
      by blast
    have f4: "path g4 = p" "fd g4 = f"
      using same_but_state_fields [OF s4] f2 by simp_all
    have c4: "counts_ok g4" using counts_ok_same [OF s4] c3 by simp
    have ok4: "absMap_ok g4" using absMap_ok_same [OF s4 ok3] .
    have "openGamepad_add rd k gamepads nm sdl p f keyBits absBits =
        Some (e4, gamepads_add gamepads nm sdl g4, if e4 = None then [] else [SysClose f])"
      unfolding openGamepad_add_def Let_def
      by (cases e4) (simp_all only: k1 k2 None k4 option.case prod.case if_True if_False simp_thms option.distinct)
    then show ?thesis using f4 c4 ok4
      by (intro exI [of _ e4] exI [of _ g4] exI [of _ "if e4 = None then [] else [SysClose f]"])
        simp
  qed
qed

subsection \<open>openGamepad\<close>

lemma find_present:
  "(gamepads_find (\<lambda>gamepad. path (native gamepad) = p) gs \<noteq> None) = present p gs"
  unfolding gamepads_find_def present_def by (auto simp: find_None_iff)

lemma ev_supports_cases:
  assumes "0 \<le> t" "t < EV_CNT"
  shows "isBitSet (filled (nat ((EV_CNT + 7) div 8)) ev) t = Some (ev_supports ev t)"
proof -
  have "t < 8 * int (length (filled (nat ((EV_CNT + 7) div 8)) ev))"
    using assms by (simp add: length_filled input_consts)
  from isBitSet_in_range [OF assms(1) this] show ?thesis
    by (auto simp: ev_supports_def)
qed

lemma openGamepad_probe:
  assumes "\<not> present p gamepads" "dev_open dev = Inr f" "dev_evBits dev = Inr ev"
    "dev_keyBits dev = Inr ky" "dev_absBits dev = Inr ab" "dev_id dev = Inr ident"
  shows "openGamepad rd dev gamepads p =
     (if \<not> ev_supports ev EV_KEY then Some (None, gamepads, [SysOpen p, SysClose f])
      else if \<not> ev_supports ev EV_ABS then Some (None, gamepads, [SysOpen p, SysClose f])
      else
        let nm = (case dev_name dev of Inl e \<Rightarrow> ''Unknown''
                  | Inr cname \<Rightarrow> ByteSliceToString (filled 256 (take (length ''Unknown'') cname)))
        in case openGamepad_add rd (dev_abs dev) gamepads nm (sdlID_of ident nm) p f
                  (filled (nat ((KEY_CNT + 7) div 8)) ky) (filled (nat ((ABS_CNT + 7) div 8)) ab) of
             None \<Rightarrow> None
           | Some (err, gamepads', cl) \<Rightarrow> Some (err, gamepads', SysOpen p # cl))"
proof -
  have k: "isBitSet (filled (nat ((EV_CNT + 7) div 8)) ev) EV_KEY = Some (ev_supports ev EV_KEY)"
    by (rule ev_supports_cases) (simp_all add: input_consts)
  have a: "isBitSet (filled (nat ((EV_CNT + 7) div 8)) ev) EV_ABS = Some (ev_supports ev EV_ABS)"
    by (rule ev_supports_cases) (simp_all add: input_consts)
  from assms(1) have n: "gamepads_find (\<lambda>gamepad. path (native gamepad) = p) gamepads = None"
    using find_present [of p gamepads] by simp
  show ?thesis
    unfolding openGamepad_def Let_def n
    by (simp add: assms(2-6) k a)
qed

lemma filled_lengths:
  "length (filled (nat ((KEY_CNT + 7) div 8)) ky) = 96"
  "length (filled (nat ((ABS_CNT + 7) div 8)) ab) = 8"
  by (simp_all add: length_filled input_consts)

lemma gamepads_add_neq: "gamepads_add gs nm sdl g \<noteq> gs"
  by (simp add: gamepads_add_def)

text \<open>
  C9: for a path that is present in the collection, \<open>openGamepad\<close> returns no error,
  makes no system call (it opens nothing), and returns the collection as it was, with
  every gamepad of it unchanged, whatever the device.
\<close>

theorem openGamepad_present_noop:
  assumes "present p gamepads"
  shows "openGamepad rd dev gamepads p = Some (None, gamepads, [])"
proof -
  from assms have c: "(gamepads_find (\<lambda>gamepad. path (native gamepad) = p) gamepads \<noteq> None) = True"
    by (simp only: find_present)
  show ?thesis
    unfolding openGamepad_def c by (simp only: if_True)
qed

theorem openGamepad_present_noop_witness:
  "present event0 [demo_entry] \<and>
   openGamepad id pad_device [demo_entry] event0 = Some (None, [demo_entry], [])"
proof -
  have p: "present event0 [demo_entry]"
    by (simp add: present_def demo_entry_def)
  from p openGamepad_present_noop [OF p, of id pad_device] show ?thesis
    by simp
qed

text \<open>
  C3, as the code has it: for a path not yet present, on a device that opens and
  answers the four queries, \<open>openGamepad\<close> closes the descriptor and returns no error
  and the collection as it was exactly when the device lacks key events or lacks
  absolute-axis events; a device that supports both gets a gamepad added to the
  collection, with the path and the descriptor, and the descriptor is closed only if an
  error is returned.
\<close>

theorem openGamepad_rejects_iff:
  assumes "\<not> present p gamepads" "dev_open dev = Inr f" "dev_evBits dev = Inr ev"
    "dev_keyBits dev = Inr ky" "dev_absBits dev = Inr ab" "dev_id dev = Inr ident"
  shows "(openGamepad rd dev gamepads p = Some (None, gamepads, [SysOpen p, SysClose f])) =
           (\<not> (ev_supports ev EV_KEY \<and> ev_supports ev EV_ABS)) \<and>
         (ev_supports ev EV_KEY \<and> ev_supports ev EV_ABS \<longrightarrow>
           (\<exists>err nm g cl. openGamepad rd dev gamepads p =
               Some (err, gamepads_add gamepads nm (sdlID_of ident nm) g, SysOpen p # cl) \<and>
             path g = p \<and> fd g = f \<and> cl = (if err = None then [] else [SysClose f])))"
proof (cases "ev_supports ev EV_KEY \<and> ev_supports ev EV_ABS")
  case False
  then have "openGamepad rd dev gamepads p = Some (None, gamepads, [SysOpen p, SysClose f])"
    by (auto simp: openGamepad_probe [OF assms])
  with False show ?thesis by simp
next
  case True
  define nm where "nm = (case dev_name dev of Inl e \<Rightarrow> ''Unknown''
                  | Inr cname \<Rightarrow> ByteSliceToString (filled 256 (take (length ''Unknown'') cname)))"
  from openGamepad_add_total [OF filled_lengths(1) [of ky] filled_lengths(2) [of ab],
      where rd = rd and k = "dev_abs dev" and gamepads = gamepads and nm = nm
        and sdl = "sdlID_of ident nm" and p = p and f = f]
  obtain err g cl where
    a: "openGamepad_add rd (dev_abs dev) gamepads nm (sdlID_of ident nm) p f
          (filled (nat ((KEY_CNT + 7) div 8)) ky) (filled (nat ((ABS_CNT + 7) div 8)) ab) =
        Some (err, gamepads_add gamepads nm (sdlID_of ident nm) g, cl)"
    and g: "path g = p" "fd g = f" "cl = (if err = None then [] else [SysClose f])"
    by blast
  have r: "openGamepad rd dev gamepads p =
      Some (err, gamepads_add gamepads nm (sdlID_of ident nm) g, SysOpen p # cl)"
    using True by (simp add: openGamepad_probe [OF assms] Let_def nm_def [symmetric] a)
  then have "openGamepad rd dev gamepads p \<noteq> Some (None, gamepads, [SysOpen p, SysClose f])"
    using gamepads_add_neq [of gamepads nm "sdlID_of ident nm" g] by simp
  moreover have "\<exists>err nm g cl. openGamepad rd dev gamepads p =
               Some (err, gamepads_add gamepads nm (sdlID_of ident nm) g, SysOpen p # cl) \<and>
             path g = p \<and> fd g = f \<and> cl = (if err = None then [] else [SysClose f])"
    using r g by blast
  ultimately show ?thesis using True by simp
qed

text \<open>
  A keyboard supports key events, one of the two types, and is rejected all the same.
\<close>

theorem keyboard_rejected_counterexample:
  "dev_open keyboard_device = Inr 7 \<and> dev_evBits keyboard_device = Inr [0x03, 0, 0, 0] \<and>
   ev_supports [0x03, 0, 0, 0] EV_KEY \<and>
   openGamepad id keyboard_device [] event0 = Some (None, [], [SysOpen event0, SysClose 7])"
proof -
  have d: "dev_open keyboard_device = Inr 7" "dev_evBits keyboard_device = Inr [0x03, 0, 0, 0]"
    "dev_keyBits keyboard_device = Inr (replicate 38 0 @ [0x03])"
    "dev_absBits keyboard_device = Inr [0x03, 0, 0x03, 0, 0, 0, 0, 0]"
    "dev_id keyboard_device = Inr xbox_id"
    by (simp_all add: keyboard_device_def pad_device_def)
  have n: "\<not> present event0 []" by (simp add: present_def)
  have k: "ev_supports [0x03, 0, 0, 0] EV_KEY" by code_simp
  have a: "\<not> ev_supports [0x03, 0, 0, 0] EV_ABS" by code_simp
  from openGamepad_probe [OF n d, of id] a
  have "openGamepad id keyboard_device [] event0 = Some (None, [], [SysOpen event0, SysClose 7])"
    by simp
  with d k show ?thesis by simp
qed

theorem openGamepad_rejects_iff_witness:
  "\<not> present event0 [] \<and> dev_open pad_device = Inr 7 \<and>
   dev_evBits pad_device = Inr [0x0b, 0, 0, 0] \<and>
   dev_keyBits pad_device = Inr (replicate 38 0 @ [0x03]) \<and>
   dev_absBits pad_device = Inr [0x03, 0, 0x03, 0, 0, 0, 0, 0] \<and>
   dev_id pad_device = Inr xbox_id \<and>
   ev_supports [0x0b, 0, 0, 0] EV_KEY \<and> ev_supports [0x0b, 0, 0, 0] EV_ABS \<and>
   openGamepad id pad_device [] event0 \<noteq> Some (None, [], [SysOpen event0, SysClose 7]) \<and>
   (\<exists>err nm g cl. openGamepad id pad_device [] event0 =
       Some (err, gamepads_add [] nm (sdlID_of xbox_id nm) g, SysOpen event0 # cl) \<and>
     path g = event0 \<and> fd g = 7 \<and> cl = (if err = None then [] else [SysClose 7]))"
proof -
  have d: "dev_open pad_device = Inr 7" "dev_evBits pad_device = Inr [0x0b, 0, 0, 0]"
    "dev_keyBits pad_device = Inr (replicate 38 0 @ [0x03])"
    "dev_absBits pad_device = Inr [0x03, 0, 0x03, 0, 0, 0, 0, 0]"
    "dev_id pad_device = Inr xbox_id"
    by (simp_all add: pad_device_def)
  have n: "\<not> present event0 []" by (simp add: present_def)
  have k: "ev_supports [0x0b, 0, 0, 0] EV_KEY" by code_simp
  have a: "ev_supports [0x0b, 0, 0, 0] EV_ABS" by code_simp
  from openGamepad_rejects_iff [OF n d, of id] k a
  have "openGamepad id pad_device [] event0 \<noteq> Some (None, [], [SysOpen event0, SysClose 7])"
    and "\<exists>err nm g cl. openGamepad id pad_device [] event0 =
       Some (err, gamepads_add [] nm (sdlID_of xbox_id nm) g, SysOpen event0 # cl) \<and>
     path g = event0 \<and> fd g = 7 \<and> cl = (if err = None then [] else [SysClose 7])"
    by simp_all
  with n d k a show ?thesis by simp
qed

text \<open>
  C2: on the pad whose \<open>EVIOCGABS\<close> fails, \<open>openGamepad\<close> called with an empty collection
  returns the error of the calibration query and closes the descriptor, and the path is
  present in the collection it leaves: the gamepad was added (line 167) before the
  loop that makes the query.
\<close>

theorem openGamepad_error_keeps_gamepad:
  "\<not> present event0 [] \<and>
   result_error (openGamepad id broken_device [] event0) = Some (AbsAtOpenFailed (EOTHER 5)) \<and>
   present event0 (result_gamepads (openGamepad id broken_device [] event0)) \<and>
   result_calls (openGamepad id broken_device [] event0) = [SysOpen event0, SysClose 7]"
  by code_simp

text \<open>
  C6: on the device whose absolute codes are \<open>0x17\<close> and \<open>0x18\<close>, \<open>openGamepad\<close> returns no
  error and leaves one gamepad with one hat and no axis: the code \<open>0x17\<close> has the hat
  index 0, and the \<open>code++\<close> after it steps over \<open>0x18\<close>, which is present, is no hat
  code and is given no axis index (its entry of \<open>absMap\<close> keeps the zero value).
\<close>

theorem hat_skip_drops_axis:
  "isBitSet (filled 8 [0, 0, 0x80, 0x01, 0, 0, 0, 0]) 0x17 = Some True \<and>
   isBitSet (filled 8 [0, 0, 0x80, 0x01, 0, 0, 0, 0]) 0x18 = Some True \<and>
   dev_absBits hat3y_device = Inr [0, 0, 0x80, 0x01, 0, 0, 0, 0] \<and>
   result_error (openGamepad id hat3y_device [] event0) = None \<and>
   map (\<lambda>gamepad. (axisCount' (native gamepad), hatCount' (native gamepad),
          absMap (native gamepad) 0x17, absMap (native gamepad) 0x18))
     (result_gamepads (openGamepad id hat3y_device [] event0)) = [(0, 1, 0, 0)]"
  by code_simp

subsection \<open>The dropped flag in the loop of update\<close>

lemma update_loop_append:
  assumes "update_loop k rd (map ReadOk bs) g n = Some (e0, g0, n0, c0)"
  shows "update_loop k rd (map ReadOk bs @ rs) g n = update_loop k rd rs g0 n0"
  using assms
proof (induction bs arbitrary: g n)
  case Nil
  then show ?case by simp
next
  case (Cons b bs)
  then show ?case
    by (cases "update_event k rd g (decode_event (filled 24 b)) n") auto
qed

lemma update_loop_discard:
  assumes "dropped g" "list_all (\<lambda>b. \<not> is_report (event_of b)) ds"
  shows "update_loop k rd (map ReadOk ds @ rs) g n = update_loop k rd rs g n"
  using assms(2)
proof (induction ds)
  case Nil
  then show ?case by simp
next
  case (Cons b ds)
  then have "\<not> is_report (decode_event (filled 24 b))" by (simp add: event_of_def)
  from update_event_dropped [OF assms(1) this, of k rd n] Cons show ?case by simp
qed

lemma update_loop_overflow:
  assumes "is_overflow (event_of b)"
  shows "update_loop k rd (ReadOk b # rs) g n = update_loop k rd rs (g\<lparr>dropped := True\<rparr>) n"
  using update_event_overflow [of "decode_event (filled 24 b)" k rd g n] assms
  by (simp add: event_of_def)

lemma pollAbsState_cleared:
  assumes "absMap_ok g"
  shows "\<exists>err g1 n1. pollAbsState k rd (g\<lparr>dropped := False\<rparr>) n = Some (err, g1, n1) \<and>
           \<not> dropped g1 \<and> buttons g1 = buttons g \<and> keyMap g1 = keyMap g \<and> absMap g1 = absMap g"
proof -
  from assms have "absMap_ok (g\<lparr>dropped := False\<rparr>)" by (simp add: absMap_ok_def)
  from pollAbsState_total [OF this, of k rd n]
  obtain err g1 n1 where p: "pollAbsState k rd (g\<lparr>dropped := False\<rparr>) n = Some (err, g1, n1)"
    and s: "same_but_state (g\<lparr>dropped := False\<rparr>) g1" by blast
  from s have e: "g1 = g\<lparr>dropped := False\<rparr>\<lparr>absInfo := absInfo g1, axes := axes g1, hats := hats g1\<rparr>"
    by (simp add: same_but_state_def)
  have "\<not> dropped g1" by (subst e) simp
  moreover have "buttons g1 = buttons g" by (subst e) simp
  moreover have "keyMap g1 = keyMap g" by (subst e) simp
  moreover have "absMap g1 = absMap g" by (subst e) simp
  ultimately show ?thesis using p by blast
qed

lemma update_loop_report:
  assumes "is_report (event_of b)"
  shows "update_loop k rd (ReadOk b # rs) g n =
     (case pollAbsState k rd (g\<lparr>dropped := False\<rparr>) n of
        None \<Rightarrow> None
      | Some (err, g1, n1) \<Rightarrow> update_loop k rd rs g1 n1)"
  using update_event_report [of "decode_event (filled 24 b)" k rd g n] assms
  by (simp add: event_of_def split: option.splits)

text \<open>
  C8: in the loop of \<open>update\<close>,
  \<^item> while \<open>dropped\<close> is true, an event other than the report-complete one leaves the
    whole gamepad as it is;
  \<^item> an overflow event sets \<open>dropped\<close> and changes nothing else;
  \<^item> a report-complete event clears \<open>dropped\<close> and runs \<open>pollAbsState\<close>, which returns
    with the flag clear and the buttons as they were;
  \<^item> started with \<open>dropped\<close> true on reads without a report-complete event, \<open>update\<close>
    returns with the buttons, the axes and the hats as they were, \<open>dropped\<close> still true
    and no \<open>EVIOCGABS\<close> made;
  \<^item> after any events \<open>bs\<close> that leave the gamepad \<open>g0\<close>, an overflow inside the sequence
    of reads makes \<open>update\<close> discard what follows: without a report-complete event it
    returns with the buttons, the axes and the hats of \<open>g0\<close> and \<open>dropped\<close> true; and with
    events \<open>ds\<close> other than report-complete followed by a report-complete event, the
    events \<open>ds\<close> have no effect, \<open>pollAbsState\<close> runs on \<open>g0\<close> with the flag cleared, and
    the loop goes on with the reads left from the gamepad \<open>pollAbsState\<close> returns, whose
    flag is clear.
\<close>

theorem dropped_discards_events:
  "(dropped g \<and> \<not> is_report e \<longrightarrow> update_event k rd g e n = Some (g, n)) \<and>
   (is_overflow e \<longrightarrow> update_event k rd g e n = Some (g\<lparr>dropped := True\<rparr>, n)) \<and>
   (is_report e \<and> absMap_ok g \<longrightarrow>
      (\<exists>err g1 n1. pollAbsState k rd (g\<lparr>dropped := False\<rparr>) n = Some (err, g1, n1) \<and>
         update_event k rd g e n = Some (g1, n1) \<and> \<not> dropped g1 \<and> buttons g1 = buttons g)) \<and>
   (dropped g \<and> no_report rs \<longrightarrow>
      (\<exists>err g' cl. update k rd rs g n = Some (err, g', n, cl) \<and>
         buttons g' = buttons g \<and> axes g' = axes g \<and> hats g' = hats g \<and> dropped g')) \<and>
   (fd s \<noteq> 0 \<and> update k rd (map ReadOk bs) s n = Some (None, g0, n0, []) \<and>
    is_overflow (event_of ov) \<longrightarrow>
      (no_report rs \<longrightarrow>
         (\<exists>err g' cl. update k rd (map ReadOk bs @ ReadOk ov # rs) s n = Some (err, g', n0, cl) \<and>
            buttons g' = buttons g0 \<and> axes g' = axes g0 \<and> hats g' = hats g0 \<and> dropped g')) \<and>
      (list_all (\<lambda>b. \<not> is_report (event_of b)) ds \<and> is_report (event_of rp) \<and> absMap_ok g0 \<longrightarrow>
         (\<exists>err g1 n1. pollAbsState k rd (g0\<lparr>dropped := False\<rparr>) n0 = Some (err, g1, n1) \<and>
            \<not> dropped g1 \<and> buttons g1 = buttons g0 \<and>
            update k rd (map ReadOk bs @ ReadOk ov # map ReadOk ds @ ReadOk rp # rs) s n =
              update_loop k rd rs g1 n1)))"
proof (intro conjI impI)
  assume "dropped g \<and> \<not> is_report e"
  then show "update_event k rd g e n = Some (g, n)"
    using update_event_dropped by blast
next
  assume "is_overflow e"
  then show "update_event k rd g e n = Some (g\<lparr>dropped := True\<rparr>, n)"
    by (rule update_event_overflow)
next
  assume a: "is_report e \<and> absMap_ok g"
  from pollAbsState_cleared [of g k rd n] a
  obtain err g1 n1 where p: "pollAbsState k rd (g\<lparr>dropped := False\<rparr>) n = Some (err, g1, n1)"
    and c: "\<not> dropped g1" "buttons g1 = buttons g" by blast
  from a have "update_event k rd g e n = Some (g1, n1)"
    by (simp add: update_event_report p)
  with p c show "\<exists>err g1 n1. pollAbsState k rd (g\<lparr>dropped := False\<rparr>) n = Some (err, g1, n1) \<and>
         update_event k rd g e n = Some (g1, n1) \<and> \<not> dropped g1 \<and> buttons g1 = buttons g"
    by blast
next
  assume a: "dropped g \<and> no_report rs"
  show "\<exists>err g' cl. update k rd rs g n = Some (err, g', n, cl) \<and>
         buttons g' = buttons g \<and> axes g' = axes g \<and> hats g' = hats g \<and> dropped g'"
  proof (cases "fd g = 0")
    case True
    with a show ?thesis by (simp add: update_def)
  next
    case False
    from a have d: "dropped g" and nr: "no_report rs" by simp_all
    from update_loop_dropped [OF d nr, of k rd n] False
    show ?thesis by (simp add: update_def) blast
  qed
next
  assume a: "fd s \<noteq> 0 \<and> update k rd (map ReadOk bs) s n = Some (None, g0, n0, []) \<and>
    is_overflow (event_of ov)"
  assume nr: "no_report rs"
  from a have pre: "update_loop k rd (map ReadOk bs) s n = Some (None, g0, n0, [])"
    and ov: "is_overflow (event_of ov)" and f: "fd s \<noteq> 0"
    by (auto simp: update_def)
  have "update_loop k rd (map ReadOk bs @ ReadOk ov # rs) s n =
      update_loop k rd rs (g0\<lparr>dropped := True\<rparr>) n0"
    by (simp only: update_loop_append [OF pre] update_loop_overflow [OF ov])
  moreover from update_loop_dropped [of "g0\<lparr>dropped := True\<rparr>" rs k rd n0] nr
  have "\<exists>err g' cl. update_loop k rd rs (g0\<lparr>dropped := True\<rparr>) n0 = Some (err, g', n0, cl) \<and>
      buttons g' = buttons g0 \<and> axes g' = axes g0 \<and> hats g' = hats g0 \<and> dropped g'"
    by simp blast
  ultimately show "\<exists>err g' cl. update k rd (map ReadOk bs @ ReadOk ov # rs) s n = Some (err, g', n0, cl) \<and>
            buttons g' = buttons g0 \<and> axes g' = axes g0 \<and> hats g' = hats g0 \<and> dropped g'"
    using f by (simp add: update_def)
next
  assume a: "fd s \<noteq> 0 \<and> update k rd (map ReadOk bs) s n = Some (None, g0, n0, []) \<and>
    is_overflow (event_of ov)"
  assume b: "list_all (\<lambda>b. \<not> is_report (event_of b)) ds \<and> is_report (event_of rp) \<and> absMap_ok g0"
  from a have pre: "update_loop k rd (map ReadOk bs) s n = Some (None, g0, n0, [])"
    and ov: "is_overflow (event_of ov)" and f: "fd s \<noteq> 0"
    by (auto simp: update_def)
  from b have ds: "list_all (\<lambda>b. \<not> is_report (event_of b)) ds" and rp: "is_report (event_of rp)"
    and ok: "absMap_ok g0" by simp_all
  from pollAbsState_cleared [OF ok, of k rd n0]
  obtain err g1 n1 where p: "pollAbsState k rd (g0\<lparr>dropped := False\<rparr>) n0 = Some (err, g1, n1)"
    and c: "\<not> dropped g1" "buttons g1 = buttons g0" by blast
  have d: "dropped (g0\<lparr>dropped := True\<rparr>)" by simp
  have "update_loop k rd (map ReadOk bs @ ReadOk ov # map ReadOk ds @ ReadOk rp # rs) s n =
      update_loop k rd (map ReadOk ds @ ReadOk rp # rs) (g0\<lparr>dropped := True\<rparr>) n0"
    by (simp only: update_loop_append [OF pre] update_loop_overflow [OF ov])
  also have "\<dots> = update_loop k rd (ReadOk rp # rs) (g0\<lparr>dropped := True\<rparr>) n0"
    by (rule update_loop_discard [OF d ds])
  also have "\<dots> = update_loop k rd rs g1 n1"
    by (subst update_loop_report [OF rp]) (simp add: p)
  finally have "update k rd (map ReadOk bs @ ReadOk ov # map ReadOk ds @ ReadOk rp # rs) s n =
      update_loop k rd rs g1 n1"
    using f by (simp add: update_def)
  with p c show "\<exists>err g1 n1. pollAbsState k rd (g0\<lparr>dropped := False\<rparr>) n0 = Some (err, g1, n1) \<and>
            \<not> dropped g1 \<and> buttons g1 = buttons g0 \<and>
            update k rd (map ReadOk bs @ ReadOk ov # map ReadOk ds @ ReadOk rp # rs) s n =
              update_loop k rd rs g1 n1"
    by blast
qed

theorem dropped_discards_events_witness:
  "dropped dropped_gamepad \<and> \<not> is_report key_event \<and> is_overflow overflow_event \<and>
   is_report report_event \<and> absMap_ok dropped_gamepad \<and>
   no_report [ReadOk key_bytes, ReadOk abs_bytes, ReadErr EAGAIN] \<and>
   fd demo_gamepad \<noteq> 0 \<and>
   update moved_abs id (map ReadOk [release_bytes]) demo_gamepad 0 =
     Some (None, released_gamepad, 0, []) \<and>
   is_overflow (event_of overflow_bytes) \<and>
   list_all (\<lambda>b. \<not> is_report (event_of b)) [key_bytes, abs_bytes] \<and>
   is_report (event_of report_bytes) \<and> absMap_ok released_gamepad \<and>
   update_event moved_abs id dropped_gamepad key_event 0 = Some (dropped_gamepad, 0) \<and>
   update_event moved_abs id demo_gamepad overflow_event 0 =
     Some (demo_gamepad\<lparr>dropped := True\<rparr>, 0) \<and>
   (\<exists>err g1 n1.
      pollAbsState moved_abs id (dropped_gamepad\<lparr>dropped := False\<rparr>) 0 = Some (err, g1, n1) \<and>
      update_event moved_abs id dropped_gamepad report_event 0 = Some (g1, n1) \<and>
      \<not> dropped g1 \<and> buttons g1 = buttons dropped_gamepad) \<and>
   (\<exists>err g' cl.
      update moved_abs id [ReadOk key_bytes, ReadOk abs_bytes, ReadErr EAGAIN] dropped_gamepad 0 =
        Some (err, g', 0, cl) \<and>
      buttons g' = buttons dropped_gamepad \<and> axes g' = axes dropped_gamepad \<and>
      hats g' = hats dropped_gamepad \<and> dropped g') \<and>
   (\<exists>err g' cl.
      update moved_abs id
        (map ReadOk [release_bytes] @ ReadOk overflow_bytes #
         [ReadOk key_bytes, ReadOk abs_bytes, ReadErr EAGAIN]) demo_gamepad 0 =
        Some (err, g', 0, cl) \<and>
      buttons g' = buttons released_gamepad \<and> axes g' = axes released_gamepad \<and>
      hats g' = hats released_gamepad \<and> dropped g') \<and>
   (\<exists>err g1 n1.
      pollAbsState moved_abs id (released_gamepad\<lparr>dropped := False\<rparr>) 0 = Some (err, g1, n1) \<and>
      \<not> dropped g1 \<and> buttons g1 = buttons released_gamepad \<and>
      update moved_abs id
        (map ReadOk [release_bytes] @ ReadOk overflow_bytes #
         map ReadOk [key_bytes, abs_bytes] @ ReadOk report_bytes # [ReadOk key_bytes])
        demo_gamepad 0 =
        update_loop moved_abs id [ReadOk key_bytes] g1 n1) \<and>
   map_option
     (\<lambda>(err, g', n', cl). (err, dropped g', buttons g' 0, hats g' 0, axes g' 0, axes g' 1, n', cl))
     (update moved_abs id
        (ReadOk release_bytes # ReadOk overflow_bytes # ReadOk key_bytes # ReadOk abs_bytes #
         ReadOk report_bytes # [ReadOk key_bytes]) demo_gamepad 0) =
     Some (None, False, True, 6, 1, 1 / 2, 64, [])"
proof -
  have d: "dropped dropped_gamepad" by (simp add: dropped_gamepad_def)
  have nk: "\<not> is_report key_event" by (simp add: is_report_def key_event_def input_consts)
  have ov: "is_overflow overflow_event"
    by (simp add: is_overflow_def overflow_event_def input_consts)
  have rp: "is_report report_event" by (simp add: is_report_def report_event_def input_consts)
  have okd: "absMap_ok dropped_gamepad"
    by (simp add: absMap_ok_def demo_gamepad_def dropped_gamepad_def zero_nativeGamepad_def
        input_consts)
  have okr: "absMap_ok released_gamepad"
    by (simp add: absMap_ok_def released_gamepad_def demo_gamepad_def zero_nativeGamepad_def
        input_consts)
  have nr: "no_report [ReadOk key_bytes, ReadOk abs_bytes, ReadErr EAGAIN]" by code_simp
  have f: "fd demo_gamepad \<noteq> 0" by (simp add: demo_gamepad_def)
  have e: "event_of release_bytes = \<lparr>ev_typ = 0x01, ev_code = 0x130, ev_value = 0\<rparr>"
    unfolding event_of_def by code_simp
  have pre: "update moved_abs id (map ReadOk [release_bytes]) demo_gamepad 0 =
      Some (None, released_gamepad, 0, [])"
    using e
    by (simp add: update_def update_event_def event_of_def released_gamepad_def demo_gamepad_def
        zero_nativeGamepad_def input_consts Let_def)
  have ovb: "is_overflow (event_of overflow_bytes)" by code_simp
  have ds: "list_all (\<lambda>b. \<not> is_report (event_of b)) [key_bytes, abs_bytes]" by code_simp
  have rpb: "is_report (event_of report_bytes)" by code_simp
  note T1 = dropped_discards_events [where g = dropped_gamepad and e = key_event
      and k = moved_abs and rd = id and n = 0
      and rs = "[ReadOk key_bytes, ReadOk abs_bytes, ReadErr EAGAIN]"
      and s = demo_gamepad and bs = "[release_bytes]" and ?g0.0 = released_gamepad and ?n0.0 = 0
      and ov = overflow_bytes and ds = "[key_bytes, abs_bytes]" and rp = report_bytes]
  note T2 = dropped_discards_events [where g = demo_gamepad and e = overflow_event
      and k = moved_abs and rd = id and n = 0]
  note T3 = dropped_discards_events [where g = dropped_gamepad and e = report_event
      and k = moved_abs and rd = id and n = 0 and rs = "[ReadOk key_bytes]"
      and s = demo_gamepad and bs = "[release_bytes]" and ?g0.0 = released_gamepad and ?n0.0 = 0
      and ov = overflow_bytes and ds = "[key_bytes, abs_bytes]" and rp = report_bytes]
  have h: "fd demo_gamepad \<noteq> 0 \<and>
      update moved_abs id (map ReadOk [release_bytes]) demo_gamepad 0 =
        Some (None, released_gamepad, 0, []) \<and>
      is_overflow (event_of overflow_bytes)"
    using f pre ovb by (intro conjI)
  have c1: "update_event moved_abs id dropped_gamepad key_event 0 = Some (dropped_gamepad, 0)"
    by (rule mp [OF T1 [THEN conjunct1]]) (intro conjI d nk)
  have c2: "update_event moved_abs id demo_gamepad overflow_event 0 =
      Some (demo_gamepad\<lparr>dropped := True\<rparr>, 0)"
    by (rule mp [OF T2 [THEN conjunct2, THEN conjunct1] ov])
  have c3: "\<exists>err g1 n1.
      pollAbsState moved_abs id (dropped_gamepad\<lparr>dropped := False\<rparr>) 0 = Some (err, g1, n1) \<and>
      update_event moved_abs id dropped_gamepad report_event 0 = Some (g1, n1) \<and>
      \<not> dropped g1 \<and> buttons g1 = buttons dropped_gamepad"
    by (rule mp [OF T3 [THEN conjunct2, THEN conjunct2, THEN conjunct1]]) (intro conjI rp okd)
  have c4: "\<exists>err g' cl.
      update moved_abs id [ReadOk key_bytes, ReadOk abs_bytes, ReadErr EAGAIN] dropped_gamepad 0 =
        Some (err, g', 0, cl) \<and>
      buttons g' = buttons dropped_gamepad \<and> axes g' = axes dropped_gamepad \<and>
      hats g' = hats dropped_gamepad \<and> dropped g'"
    by (rule mp [OF T1 [THEN conjunct2, THEN conjunct2, THEN conjunct2, THEN conjunct1]])
      (intro conjI d nr)
  have c5: "\<exists>err g' cl.
      update moved_abs id
        (map ReadOk [release_bytes] @ ReadOk overflow_bytes #
         [ReadOk key_bytes, ReadOk abs_bytes, ReadErr EAGAIN]) demo_gamepad 0 =
        Some (err, g', 0, cl) \<and>
      buttons g' = buttons released_gamepad \<and> axes g' = axes released_gamepad \<and>
      hats g' = hats released_gamepad \<and> dropped g'"
    by (rule mp [OF mp [OF T1 [THEN conjunct2, THEN conjunct2, THEN conjunct2, THEN conjunct2]
            h, THEN conjunct1] nr])
  have c6: "\<exists>err g1 n1.
      pollAbsState moved_abs id (released_gamepad\<lparr>dropped := False\<rparr>) 0 = Some (err, g1, n1) \<and>
      \<not> dropped g1 \<and> buttons g1 = buttons released_gamepad \<and>
      update moved_abs id
        (map ReadOk [release_bytes] @ ReadOk overflow_bytes #
         map ReadOk [key_bytes, abs_bytes] @ ReadOk report_bytes # [ReadOk key_bytes])
        demo_gamepad 0 =
        update_loop moved_abs id [ReadOk key_bytes] g1 n1"
    by (rule mp [OF mp [OF T3 [THEN conjunct2, THEN conjunct2, THEN conjunct2, THEN conjunct2]
            h, THEN conjunct2]]) (intro conjI ds rpb okr)
  have c7: "map_option
     (\<lambda>(err, g', n', cl). (err, dropped g', buttons g' 0, hats g' 0, axes g' 0, axes g' 1, n', cl))
     (update moved_abs id
        (ReadOk release_bytes # ReadOk overflow_bytes # ReadOk key_bytes # ReadOk abs_bytes #
         ReadOk report_bytes # [ReadOk key_bytes]) demo_gamepad 0) =
     Some (None, False, True, 6, 1, 1 / 2, 64, [])"
    by code_simp
  show ?thesis
    by (intro conjI d nk ov rp okd nr f pre ovb ds rpb okr c1 c2 c3 c4 c5 c6 c7)
qed

end
